theory Spec2Isabelle
  imports Main
begin

section \<open>Index files and their serialization (src/serializer.cc)\<close>

text \<open>
  The records follow the members that the code of \<^verbatim>\<open>serializer.cc\<close> and
  \<^verbatim>\<open>import_pipeline.cc\<close> reads and writes. The struct declarations themselves
  (\<^verbatim>\<open>indexer.h\<close>) are not among the sources; members of a symbol that no code
  here inspects one by one (\<^verbatim>\<open>detailed_name\<close>, \<^verbatim>\<open>hover\<close>, ...) travel through the
  same member walk as the ones kept and are left out of the records. Record fields are
  prefixed where several structs use one member name (\<^verbatim>\<open>id\<close>, \<^verbatim>\<open>usr\<close>).
  64-bit and 32-bit integers are \<^typ>\<open>int\<close>: no arithmetic is done on them here.
\<close>

datatype SerializeFormat = Json | MessagePack

datatype LanguageId = Unknown | C | Cpp | ObjC

type_synonym Position = "int \<times> int"
type_synonym Range = "Position \<times> Position"

record IndexInclude =
  line :: int
  resolved_path :: string

record IndexType =
  t_id :: nat
  t_usr :: string
  t_short_name :: string
  t_uses :: "Range list"

record IndexFunc =
  f_id :: nat
  f_usr :: string

record IndexVar =
  v_id :: nat
  v_usr :: string

record IdCache =
  primary_file :: string
  usr_to_type_id :: "string \<rightharpoonup> nat"
  usr_to_func_id :: "string \<rightharpoonup> nat"
  usr_to_var_id :: "string \<rightharpoonup> nat"
  type_id_to_usr :: "nat \<rightharpoonup> string"
  func_id_to_usr :: "nat \<rightharpoonup> string"
  var_id_to_usr :: "nat \<rightharpoonup> string"

record IndexFile =
  id_cache :: IdCache
  path :: string
  version :: int
  last_modification_time :: int
  language :: LanguageId
  import_file :: string
  args :: "string list"
  skipped_by_preprocessor :: "Range list"
  includes' :: "IndexInclude list"
  dependencies :: "string list"
  types :: "IndexType list"
  funcs :: "IndexFunc list"
  vars :: "IndexVar list"
  diagnostics' :: "string list"

text \<open>
  What the source does by failing: \<^verbatim>\<open>assert\<close> (a fatal assertion) and an index
  past the end of a vector (undefined behaviour in C++) are results of their own.
\<close>

datatype error = AssertionFailed | IndexOutOfRange

text \<open>
  Modelled from the spec: the reader and writer visitors (\<^verbatim>\<open>serializer.h\<close>,
  \<^verbatim>\<open>serializers/json.h\<close>, \<^verbatim>\<open>serializers/msgpack.h\<close>) and the third-party text and
  binary layers under them are not among the sources. The spec: "Both are reflective:
  the same field list is walked for read and write." A payload is therefore the members
  that the writer's walk emits, each holding the value written (a member the walk skips
  is \<^term>\<open>None\<close>); a string that the library refuses to parse (or, for the packed
  form, an empty one) is \<^term>\<open>Unparsable\<close>.
\<close>

record Members =
  m_version :: "int option"
  m_last_modification_time :: "int option"
  m_language :: "LanguageId option"
  m_import_file :: "string option"
  m_args :: "string list option"
  m_includes :: "IndexInclude list option"
  m_dependencies :: "string list option"
  m_skipped_by_preprocessor :: "Range list option"
  m_types :: "IndexType list option"
  m_funcs :: "IndexFunc list option"
  m_vars :: "IndexVar list option"

datatype blob = Unparsable | Parsed Members

text \<open>\<^verbatim>\<open>std::string::find_last_of(c)\<close>: the last position of \<open>c\<close>, or \<^verbatim>\<open>npos\<close>.\<close>

fun find_last_of :: "string \<Rightarrow> char \<Rightarrow> nat option" where
  "find_last_of [] c = None"
| "find_last_of (x # xs) c =
     (case find_last_of xs c of
        Some k \<Rightarrow> Some (Suc k)
      | None \<Rightarrow> if x = c then Some 0 else None)"

definition GetBaseName :: "string \<Rightarrow> string" where
  "GetBaseName p =
     (case find_last_of p CHR ''/'' of
        Some last_slash \<Rightarrow> if last_slash + 1 < length p then drop (last_slash + 1) p else p
      | None \<Rightarrow> p)"

text \<open>\<^verbatim>\<open>StartsWith\<close> (\<^verbatim>\<open>utils.h\<close>, not among the sources): the prefix test.\<close>

definition StartsWith :: "string \<Rightarrow> string \<Rightarrow> bool" where
  "StartsWith s start = (take (length start) s = start)"

text \<open>
  \<^verbatim>\<open>Reflect(Writer&, IndexInclude&)\<close>: the value written for one include; the flag is
  the file-level \<^verbatim>\<open>gTestOutputMode\<close>.
\<close>

definition Reflect_Writer_IndexInclude :: "bool \<Rightarrow> IndexInclude \<Rightarrow> IndexInclude" where
  "Reflect_Writer_IndexInclude gTestOutputMode v =
     (if gTestOutputMode then
        (let basename = GetBaseName (resolved_path v);
             basename = (if \<not> StartsWith (resolved_path v) ''&'' then ''&'' @ basename
                         else basename)
         in v\<lparr>resolved_path := basename\<rparr>)
      else v)"

text \<open>
  \<^verbatim>\<open>ReflectMemberStart(Writer&, IndexFile&)\<close>; \<^verbatim>\<open>value.Resolve(id)\<close> is
  \<^verbatim>\<open>&types[id.id]\<close>. The constant \<^verbatim>\<open>IndexFile::kCurrentVersion\<close> is declared in
  \<^verbatim>\<open>indexer.h\<close>, so it is the parameter \<open>kCurrentVersion\<close>.
\<close>

definition ReflectMemberStart :: "int \<Rightarrow> IndexFile \<Rightarrow> error + IndexFile" where
  "ReflectMemberStart kCurrentVersion v =
     (case usr_to_type_id (id_cache v) [] of
        None \<Rightarrow> Inr (v\<lparr>version := kCurrentVersion\<rparr>)
      | Some i \<Rightarrow>
          if length (types v) \<le> i then Inl IndexOutOfRange
          else
            (let v1 = v\<lparr>types := (types v)[i := (types v ! i)\<lparr>t_short_name := ''<fundamental>''\<rparr>]\<rparr>
             in if t_uses (types v1 ! i) \<noteq> [] then Inl AssertionFailed
                else Inr (v1\<lparr>version := kCurrentVersion\<rparr>)))"

text \<open>
  \<^verbatim>\<open>Reflect(TVisitor&, IndexFile&)\<close> with a writer: the members emitted, and the file
  as the call leaves it (the argument is passed by reference).
\<close>

definition Reflect_Writer_IndexFile ::
  "int \<Rightarrow> bool \<Rightarrow> IndexFile \<Rightarrow> error + (Members \<times> IndexFile)" where
  "Reflect_Writer_IndexFile kCurrentVersion gTestOutputMode file =
     (case ReflectMemberStart kCurrentVersion file of
        Inl e \<Rightarrow> Inl e
      | Inr v \<Rightarrow>
          Inr (\<lparr> m_version = (if \<not> gTestOutputMode then Some (version v) else None),
                 m_last_modification_time =
                   (if \<not> gTestOutputMode then Some (last_modification_time v) else None),
                 m_language = (if \<not> gTestOutputMode then Some (language v) else None),
                 m_import_file = (if \<not> gTestOutputMode then Some (import_file v) else None),
                 m_args = (if \<not> gTestOutputMode then Some (args v) else None),
                 m_includes = Some (map (Reflect_Writer_IndexInclude gTestOutputMode) (includes' v)),
                 m_dependencies = (if \<not> gTestOutputMode then Some (dependencies v) else None),
                 m_skipped_by_preprocessor = Some (skipped_by_preprocessor v),
                 m_types = Some (types v),
                 m_funcs = Some (funcs v),
                 m_vars = Some (vars v) \<rparr>, v))"

text \<open>
  \<^verbatim>\<open>Reflect(TVisitor&, IndexFile&)\<close> with a reader: a member found in the payload
  overwrites the field, a member not found leaves it as it is.
\<close>

definition read_member :: "'a option \<Rightarrow> 'a \<Rightarrow> 'a" where
  "read_member m current = (case m of Some x \<Rightarrow> x | None \<Rightarrow> current)"

definition Reflect_Reader_IndexFile :: "bool \<Rightarrow> Members \<Rightarrow> IndexFile \<Rightarrow> IndexFile" where
  "Reflect_Reader_IndexFile gTestOutputMode m file =
     (let v = (if \<not> gTestOutputMode then
                 file\<lparr> version := read_member (m_version m) (version file),
                       last_modification_time :=
                         read_member (m_last_modification_time m) (last_modification_time file),
                       language := read_member (m_language m) (language file),
                       import_file := read_member (m_import_file m) (import_file file),
                       args := read_member (m_args m) (args file) \<rparr>
               else file);
          v = v\<lparr>includes' := read_member (m_includes m) (includes' v)\<rparr>;
          v = (if \<not> gTestOutputMode then
                 v\<lparr>dependencies := read_member (m_dependencies m) (dependencies v)\<rparr>
               else v)
      in v\<lparr> skipped_by_preprocessor :=
                read_member (m_skipped_by_preprocessor m) (skipped_by_preprocessor v),
              types := read_member (m_types m) (types v),
              funcs := read_member (m_funcs m) (funcs v),
              vars := read_member (m_vars m) (vars v) \<rparr>)"

text \<open>\<^verbatim>\<open>Serialize\<close>: the payload, and the file as the call leaves it.\<close>

definition Serialize ::
  "int \<Rightarrow> bool \<Rightarrow> SerializeFormat \<Rightarrow> IndexFile \<Rightarrow> error + (blob \<times> IndexFile)" where
  "Serialize kCurrentVersion gTestOutputMode format file =
     (case format of
        Json \<Rightarrow>
          (case Reflect_Writer_IndexFile kCurrentVersion gTestOutputMode file of
             Inl e \<Rightarrow> Inl e
           | Inr (output, file') \<Rightarrow> Inr (Parsed output, file'))
      | MessagePack \<Rightarrow>
          (case Reflect_Writer_IndexFile kCurrentVersion gTestOutputMode file of
             Inl e \<Rightarrow> Inl e
           | Inr (buf, file') \<Rightarrow> Inr (Parsed buf, file')))"

text \<open>
  Modelled from the spec: the constructors \<^verbatim>\<open>IdCache(path)\<close> and \<^verbatim>\<open>IndexFile(path)\<close>
  (\<^verbatim>\<open>indexer.cc\<close>, not among the sources). The spec's data model gives the members;
  a fresh file has its path, and every other member empty or zero.
\<close>

definition IdCache_ctor :: "string \<Rightarrow> IdCache" where
  "IdCache_ctor p =
     \<lparr> primary_file = p,
       usr_to_type_id = Map.empty, usr_to_func_id = Map.empty, usr_to_var_id = Map.empty,
       type_id_to_usr = Map.empty, func_id_to_usr = Map.empty, var_id_to_usr = Map.empty \<rparr>"

definition IndexFile_ctor :: "string \<Rightarrow> IndexFile" where
  "IndexFile_ctor p =
     \<lparr> id_cache = IdCache_ctor p, path = p, version = 0, last_modification_time = 0,
       language = Unknown, import_file = [], args = [], skipped_by_preprocessor = [],
       includes' = [], dependencies = [], types = [], funcs = [], vars = [],
       diagnostics' = [] \<rparr>"

text \<open>The three loops that restore the non-serialized state at the end of \<^verbatim>\<open>Deserialize\<close>.\<close>

fun restore_types :: "IndexType list \<Rightarrow> IdCache \<Rightarrow> IdCache" where
  "restore_types [] c = c"
| "restore_types (t # ts) c =
     restore_types ts
       (c\<lparr> type_id_to_usr := (type_id_to_usr c)(t_id t \<mapsto> t_usr t),
            usr_to_type_id := (usr_to_type_id c)(t_usr t \<mapsto> t_id t) \<rparr>)"

fun restore_funcs :: "IndexFunc list \<Rightarrow> IdCache \<Rightarrow> IdCache" where
  "restore_funcs [] c = c"
| "restore_funcs (f # fs) c =
     restore_funcs fs
       (c\<lparr> func_id_to_usr := (func_id_to_usr c)(f_id f \<mapsto> f_usr f),
            usr_to_func_id := (usr_to_func_id c)(f_usr f \<mapsto> f_id f) \<rparr>)"

fun restore_vars :: "IndexVar list \<Rightarrow> IdCache \<Rightarrow> IdCache" where
  "restore_vars [] c = c"
| "restore_vars (x # xs) c =
     restore_vars xs
       (c\<lparr> var_id_to_usr := (var_id_to_usr c)(v_id x \<mapsto> v_usr x),
            usr_to_var_id := (usr_to_var_id c)(v_usr x \<mapsto> v_id x) \<rparr>)"

definition restore_state :: "string \<Rightarrow> IndexFile \<Rightarrow> IndexFile" where
  "restore_state p file =
     (let file = file\<lparr>path := p\<rparr>;
          file = file\<lparr>id_cache := (id_cache file)\<lparr>primary_file := path file\<rparr>\<rparr>
      in file\<lparr>id_cache :=
                restore_vars (vars file)
                  (restore_funcs (funcs file) (restore_types (types file) (id_cache file)))\<rparr>)"

text \<open>
  \<^verbatim>\<open>Deserialize\<close>. \<^term>\<open>None\<close> is the null pointer. In the packed branch
  \<^verbatim>\<open>file->version != expected_version\<close> compares an \<^verbatim>\<open>int\<close> with an
  \<^verbatim>\<open>optional<int>\<close>: they differ when the optional is empty.
\<close>

definition Deserialize ::
  "bool \<Rightarrow> SerializeFormat \<Rightarrow> string \<Rightarrow> blob \<Rightarrow> int option \<Rightarrow> IndexFile option" where
  "Deserialize gTestOutputMode format p serialized expected_version =
     (case format of
        Json \<Rightarrow>
          (case serialized of
             Unparsable \<Rightarrow> None
           | Parsed reader \<Rightarrow>
               if expected_version \<noteq> None \<and>
                  (m_version reader = None \<or> m_version reader \<noteq> expected_version)
               then None
               else Some (restore_state p
                            (Reflect_Reader_IndexFile gTestOutputMode reader (IndexFile_ctor p))))
      | MessagePack \<Rightarrow>
          (case serialized of
             Unparsable \<Rightarrow> None
           | Parsed upk \<Rightarrow>
               (let file = Reflect_Reader_IndexFile gTestOutputMode upk (IndexFile_ctor p)
                in if Some (version file) \<noteq> expected_version then None
                   else Some (restore_state p file))))"

section \<open>Progress reporting (src/import_pipeline.cc, ActiveThread)\<close>

text \<open>
  \<^verbatim>\<open>Config\<close>, \<^verbatim>\<open>ImportPipelineStatus\<close> and \<^verbatim>\<open>Out_Progress\<close> with the members that
  \<^verbatim>\<open>ActiveThread\<close> uses. The clock counts milliseconds since the epoch, far from the
  end of a \<^verbatim>\<open>long long\<close>, and the counters are small: the numbers are \<^typ>\<open>int\<close>.
\<close>

record Config =
  progressReportFrequencyMs :: int

record ImportPipelineStatus =
  num_active_threads :: int
  next_progress_output :: int

record Out_Progress =
  indexRequestCount :: int
  doIdMapCount :: int
  loadPreviousIndexCount :: int
  onIdMappedCount :: int
  onIndexedCount :: int
  activeThreads :: int

text \<open>What \<^verbatim>\<open>Size()\<close> returns for each of the five queues of the \<^verbatim>\<open>QueueManager\<close>.\<close>

record QueueSizes =
  index_request_size :: nat
  do_id_map_size :: nat
  load_previous_index_size :: nat
  on_id_mapped_size :: nat
  on_indexed_size :: nat

definition ImportPipelineStatus_ctor :: ImportPipelineStatus where
  "ImportPipelineStatus_ctor = \<lparr> num_active_threads = 0, next_progress_output = 0 \<rparr>"

definition ActiveThread_ctor :: "Config \<Rightarrow> ImportPipelineStatus \<Rightarrow> ImportPipelineStatus" where
  "ActiveThread_ctor config status =
     (if progressReportFrequencyMs config < 0 then status
      else status\<lparr>num_active_threads := num_active_threads status + 1\<rparr>)"

text \<open>
  \<^verbatim>\<open>EmitProgress\<close>. \<open>now1\<close> and \<open>now2\<close> are what the two calls of
  \<^verbatim>\<open>GetCurrentTimeInMilliseconds\<close> return. The result is the status as the call leaves
  it and the message handed to \<^verbatim>\<open>WriteStdout\<close>, if any.
\<close>

definition EmitProgress ::
  "Config \<Rightarrow> ImportPipelineStatus \<Rightarrow> QueueSizes \<Rightarrow> int \<Rightarrow> int \<Rightarrow>
     ImportPipelineStatus \<times> Out_Progress option" where
  "EmitProgress config status queue now1 now2 =
     (let out = \<lparr> indexRequestCount = int (index_request_size queue),
                    doIdMapCount = int (do_id_map_size queue),
                    loadPreviousIndexCount = int (load_previous_index_size queue),
                    onIdMappedCount = int (on_id_mapped_size queue),
                    onIndexedCount = int (on_indexed_size queue),
                    activeThreads = num_active_threads status \<rparr>
      in if progressReportFrequencyMs config \<noteq> 0 then
           (let all_zero =
                  (indexRequestCount out = 0 \<and> doIdMapCount out = 0 \<and>
                   loadPreviousIndexCount out = 0 \<and> onIdMappedCount out = 0 \<and>
                   onIndexedCount out = 0 \<and> activeThreads out = 0)
            in if \<not> all_zero \<or> now1 < next_progress_output status then (status, None)
               else (status\<lparr>next_progress_output := now2 + progressReportFrequencyMs config\<rparr>,
                     Some out))
         else (status, Some out))"

definition ActiveThread_dtor ::
  "Config \<Rightarrow> ImportPipelineStatus \<Rightarrow> QueueSizes \<Rightarrow> int \<Rightarrow> int \<Rightarrow>
     ImportPipelineStatus \<times> Out_Progress option" where
  "ActiveThread_dtor config status queue now1 now2 =
     (if progressReportFrequencyMs config < 0 then (status, None)
      else EmitProgress config (status\<lparr>num_active_threads := num_active_threads status - 1\<rparr>)
             queue now1 now2)"

text \<open>
  Several workers run the loop body of \<^verbatim>\<open>Indexer_Main\<close> against one status. The
  counter is atomic, so a run is a sequence of entries into the body (the constructor)
  and exits from it (the destructor), each by the worker named; the scope of the
  \<^verbatim>\<open>ActiveThread\<close> object makes a worker enter only from outside and leave only from
  inside. The state is the set of workers inside the body and the status.
\<close>

datatype worker_event = Enter nat | Leave nat QueueSizes int int

fun worker_step ::
  "Config \<Rightarrow> nat set \<times> ImportPipelineStatus \<Rightarrow> worker_event \<Rightarrow> nat set \<times> ImportPipelineStatus"
  where
  "worker_step config (inside, status) (Enter t) =
     (if t \<in> inside then (inside, status)
      else (insert t inside, ActiveThread_ctor config status))"
| "worker_step config (inside, status) (Leave t queue now1 now2) =
     (if t \<in> inside then (inside - {t}, fst (ActiveThread_dtor config status queue now1 now2))
      else (inside, status))"

definition workers_run ::
  "Config \<Rightarrow> nat set \<times> ImportPipelineStatus \<Rightarrow> worker_event list \<Rightarrow>
     nat set \<times> ImportPipelineStatus" where
  "workers_run config start events = foldl (worker_step config) start events"

text \<open>
  For stating what a progress message holds: the six counters that \<^verbatim>\<open>EmitProgress\<close>
  reports for a status and the queues, and whether all six are zero.
\<close>

definition reported_counters :: "ImportPipelineStatus \<Rightarrow> QueueSizes \<Rightarrow> Out_Progress" where
  "reported_counters status sizes =
     \<lparr> indexRequestCount = int (index_request_size sizes),
       doIdMapCount = int (do_id_map_size sizes),
       loadPreviousIndexCount = int (load_previous_index_size sizes),
       onIdMappedCount = int (on_id_mapped_size sizes),
       onIndexedCount = int (on_indexed_size sizes),
       activeThreads = num_active_threads status \<rparr>"

definition all_counters_zero :: "Out_Progress \<Rightarrow> bool" where
  "all_counters_zero out =
     (indexRequestCount out = 0 \<and> doIdMapCount out = 0 \<and> loadPreviousIndexCount out = 0 \<and>
      onIdMappedCount out = 0 \<and> onIndexedCount out = 0 \<and> activeThreads out = 0)"

section \<open>The collaborators of the pipeline\<close>

text \<open>
  The calls whose occurrence a property speaks of (a file reset in the file-consumer
  set, a run of the indexer, diagnostics pushed to the client, an import reserved or
  released, an update applied, ...) are recorded, in order, in a list carried by the state.
\<close>

datatype Call =
    Call_Reset string
  | Call_Index string
  | Call_EmitDiagnostics string
  | Call_StartQueryDbImport string
  | Call_DoneQueryDbImport string
  | Call_ApplyIndexUpdate "string list"
  | Call_EmitInactiveLines string
  | Call_EmitSemanticHighlighting string
  | Call_WriteStdout Out_Progress

record FileContents =
  fc_path :: string
  fc_content :: string

record PerformanceImportFile =
  index_parse :: nat
  index_build :: nat
  querydb_id_map :: nat
  index_save_to_disk :: nat
  index_load_cached :: nat
  index_make_delta :: nat

definition PerformanceImportFile_ctor :: PerformanceImportFile where
  "PerformanceImportFile_ctor =
     \<lparr> index_parse = 0, index_build = 0, querydb_id_map = 0, index_save_to_disk = 0,
       index_load_cached = 0, index_make_delta = 0 \<rparr>"

text \<open>
  \<^verbatim>\<open>Index_DoIdMap\<close> (\<^verbatim>\<open>queue_manager.h\<close>); \<^term>\<open>None\<close> is a null
  \<^verbatim>\<open>unique_ptr\<close>. The constructor leaves \<^verbatim>\<open>previous\<close> null and \<^verbatim>\<open>load_previous\<close>
  false.
\<close>

record Index_DoIdMap =
  current :: "IndexFile option"
  previous :: "IndexFile option"
  perf :: PerformanceImportFile
  is_interactive :: bool
  write_to_disk :: bool
  load_previous :: bool

definition Index_DoIdMap_ctor ::
  "IndexFile option \<Rightarrow> PerformanceImportFile \<Rightarrow> bool \<Rightarrow> bool \<Rightarrow> Index_DoIdMap" where
  "Index_DoIdMap_ctor cur p interactive to_disk =
     \<lparr> current = cur, previous = None, perf = p, is_interactive = interactive,
       write_to_disk = to_disk, load_previous = False \<rparr>"

text \<open>
  Modelled from the spec: \<^verbatim>\<open>ImportManager\<close> (\<^verbatim>\<open>import_manager.h\<close>, not among the
  sources). "\<^verbatim>\<open>TryMarkDependencyImported(path)\<close>: First caller \<open>\<Rightarrow>\<close> true; subsequent callers
  \<open>\<Rightarrow>\<close> false." "\<^verbatim>\<open>Start\<close> returns false if a prior import for path has not yet been
  \<^verbatim>\<open>Done\<close>." Each call is atomic (the manager is internally synchronized).
\<close>

record ImportManager =
  dependency_imported :: "string set"
  querydb_processing :: "string set"

definition TryMarkDependencyImported :: "ImportManager \<Rightarrow> string \<Rightarrow> bool \<times> ImportManager" where
  "TryMarkDependencyImported im p =
     (p \<notin> dependency_imported im, im\<lparr>dependency_imported := insert p (dependency_imported im)\<rparr>)"

definition StartQueryDbImport :: "ImportManager \<Rightarrow> string \<Rightarrow> bool \<times> ImportManager" where
  "StartQueryDbImport im p =
     (p \<notin> querydb_processing im, im\<lparr>querydb_processing := insert p (querydb_processing im)\<rparr>)"

definition DoneQueryDbImport :: "ImportManager \<Rightarrow> string \<Rightarrow> ImportManager" where
  "DoneQueryDbImport im p = im\<lparr>querydb_processing := querydb_processing im - {p}\<rparr>"

text \<open>
  Modelled from the spec: \<^verbatim>\<open>FileConsumerSharedState\<close> (not among the sources).
  "\<^verbatim>\<open>Mark(path)\<close>: inserts and returns true iff newly inserted. \<^verbatim>\<open>Reset(path)\<close>:
  clears the claim."
\<close>

record FileConsumerSharedState =
  used_files :: "string set"

definition Mark :: "FileConsumerSharedState \<Rightarrow> string \<Rightarrow> bool \<times> FileConsumerSharedState" where
  "Mark fc p = (p \<notin> used_files fc, fc\<lparr>used_files := insert p (used_files fc)\<rparr>)"

definition Reset :: "FileConsumerSharedState \<Rightarrow> string \<Rightarrow> FileConsumerSharedState" where
  "Reset fc p = fc\<lparr>used_files := used_files fc - {p}\<rparr>"

text \<open>
  Modelled from the spec: the cache manager (\<^verbatim>\<open>cache_manager.h\<close>, not among the
  sources). \<open>caches\<close> are the index files resident in memory, in the order in which
  \<^verbatim>\<open>IterateLoadedCaches\<close> visits them; \<open>store\<close> is what loading a path from disk and
  deserializing it gives. "\<^verbatim>\<open>TryLoad(path)\<close> (non-owning, nullable, in-memory cache
  preferred); \<^verbatim>\<open>TryTakeOrLoad(path)\<close> (removes from the in-memory cache if present; loads
  and deserializes from disk otherwise; nullable); \<^verbatim>\<open>TakeOrLoad(path)\<close> (same, must
  succeed); \<^verbatim>\<open>IterateLoadedCaches(fn)\<close> (visits all IndexFiles currently resident)."
  The file that \<^verbatim>\<open>TryLoad\<close> loads from disk becomes resident: the manager owns it.
\<close>

record CacheManager =
  caches :: "(string \<times> IndexFile) list"
  store :: "string \<rightharpoonup> IndexFile"

definition TryLoad :: "CacheManager \<Rightarrow> string \<Rightarrow> IndexFile option \<times> CacheManager" where
  "TryLoad cm p =
     (case map_of (caches cm) p of
        Some f \<Rightarrow> (Some f, cm)
      | None \<Rightarrow>
          (case store cm p of
             None \<Rightarrow> (None, cm)
           | Some f \<Rightarrow> (Some f, cm\<lparr>caches := caches cm @ [(p, f)]\<rparr>)))"

definition TryTakeOrLoad :: "CacheManager \<Rightarrow> string \<Rightarrow> IndexFile option \<times> CacheManager" where
  "TryTakeOrLoad cm p =
     (case map_of (caches cm) p of
        Some f \<Rightarrow> (Some f, cm\<lparr>caches := filter (\<lambda>e. fst e \<noteq> p) (caches cm)\<rparr>)
      | None \<Rightarrow> (store cm p, cm))"

definition TakeOrLoad :: "CacheManager \<Rightarrow> string \<Rightarrow> error + (IndexFile \<times> CacheManager)" where
  "TakeOrLoad cm p =
     (case TryTakeOrLoad cm p of
        (None, cm') \<Rightarrow> Inl AssertionFailed
      | (Some f, cm') \<Rightarrow> Inr (f, cm'))"

definition IterateLoadedCaches :: "CacheManager \<Rightarrow> IndexFile list" where
  "IterateLoadedCaches cm = map snd (caches cm)"

record TimestampManager =
  timestamps :: "string \<rightharpoonup> int"

text \<open>
  The state that the parse stage works on: the file system as the platform functions
  \<^verbatim>\<open>GetLastModificationTime\<close> and \<^verbatim>\<open>ReadContent\<close> show it, the four shared managers,
  and the calls made so far.
\<close>

record World =
  disk_mtime :: "string \<rightharpoonup> int"
  disk_content :: "string \<rightharpoonup> string"
  timestamp_manager :: TimestampManager
  import_manager :: ImportManager
  file_consumer_shared :: FileConsumerSharedState
  cache_manager :: CacheManager
  calls :: "Call list"

text \<open>
  Modelled from the spec: \<^verbatim>\<open>TimestampManager::GetLastCachedModificationTime\<close> (not among
  the sources). "returns the in-memory value if present, otherwise consults the cache
  for a persisted IndexFile and returns its \<^verbatim>\<open>last_modification_time\<close>, memoizing the
  result."
\<close>

definition GetLastCachedModificationTime :: "World \<Rightarrow> string \<Rightarrow> int option \<times> World" where
  "GetLastCachedModificationTime w p =
     (case timestamps (timestamp_manager w) p of
        Some t \<Rightarrow> (Some t, w)
      | None \<Rightarrow>
          (case TryLoad (cache_manager w) p of
             (None, cm) \<Rightarrow> (None, w\<lparr>cache_manager := cm\<rparr>)
           | (Some file, cm) \<Rightarrow>
               (Some (last_modification_time file),
                w\<lparr> cache_manager := cm,
                   timestamp_manager :=
                     (timestamp_manager w)\<lparr>timestamps :=
                        (timestamps (timestamp_manager w))(p \<mapsto> last_modification_time file)\<rparr> \<rparr>)))"

section \<open>The parse stage (src/import_pipeline.cc, DoParseFile and ParseFile)\<close>

datatype FileParseQuery = NeedsParse | DoesNotNeedParse | NoSuchFile

text \<open>The lambda \<^verbatim>\<open>file_needs_parse\<close> of \<^verbatim>\<open>DoParseFile\<close>, with what it captures.\<close>

definition file_needs_parse_timestamps :: "World \<Rightarrow> string \<Rightarrow> FileParseQuery \<times> World" where
  "file_needs_parse_timestamps w p =
     (case disk_mtime w p of
        None \<Rightarrow> (NoSuchFile, w)
      | Some modification_timestamp \<Rightarrow>
          (case GetLastCachedModificationTime w p of
             (last_cached_modification, w1) \<Rightarrow>
               if last_cached_modification = None \<or>
                  Some modification_timestamp \<noteq> last_cached_modification
               then (NeedsParse,
                     w1\<lparr> file_consumer_shared := Reset (file_consumer_shared w1) p,
                         calls := calls w1 @ [Call_Reset p] \<rparr>)
               else (DoesNotNeedParse, w1)))"

definition file_needs_parse :: "bool \<Rightarrow> World \<Rightarrow> string \<Rightarrow> bool \<Rightarrow> FileParseQuery \<times> World" where
  "file_needs_parse interactive w p is_dependency =
     (if \<not> interactive \<and> is_dependency then
        (case TryMarkDependencyImported (import_manager w) p of
           (marked, im) \<Rightarrow>
             if \<not> marked then (DoesNotNeedParse, w\<lparr>import_manager := im\<rparr>)
             else file_needs_parse_timestamps (w\<lparr>import_manager := im\<rparr>) p)
      else file_needs_parse_timestamps w p)"

text \<open>The first loop over \<^verbatim>\<open>previous_index->dependencies\<close>: it does not break.\<close>

fun check_dependencies ::
  "bool \<Rightarrow> string list \<Rightarrow> bool \<Rightarrow> World \<Rightarrow> error + (bool \<times> World)" where
  "check_dependencies interactive [] needs_reparse w = Inr (needs_reparse, w)"
| "check_dependencies interactive (dependency # rest) needs_reparse w =
     (if dependency = [] then Inl AssertionFailed
      else
        (case file_needs_parse interactive w dependency True of
           (state, w1) \<Rightarrow>
             check_dependencies interactive rest
               (if state \<noteq> DoesNotNeedParse then True else needs_reparse) w1))"

text \<open>
  The timestamp checks of \<^verbatim>\<open>DoParseFile\<close> for a previous index: \<^term>\<open>None\<close> when the
  target file is not on disk (the function then returns no index), else
  \<^verbatim>\<open>needs_reparse\<close>.
\<close>

definition check_timestamps ::
  "bool \<Rightarrow> IndexFile \<Rightarrow> string \<Rightarrow> World \<Rightarrow> error + (bool option \<times> World)" where
  "check_timestamps interactive previous_index p w =
     (case file_needs_parse interactive w p False of
        (path_state, w1) \<Rightarrow>
          if path_state = NoSuchFile then Inr (None, w1)
          else
            (case check_dependencies interactive (dependencies previous_index)
                    (interactive \<or> path_state = NeedsParse) w1 of
               Inl e \<Rightarrow> Inl e
             | Inr (needs_reparse, w2) \<Rightarrow> Inr (Some needs_reparse, w2)))"

text \<open>The second loop over the dependencies, in the branch that loads from the cache.\<close>

fun load_dependencies ::
  "bool \<Rightarrow> PerformanceImportFile \<Rightarrow> string list \<Rightarrow> Index_DoIdMap list \<Rightarrow> World \<Rightarrow>
     Index_DoIdMap list \<times> World" where
  "load_dependencies interactive pf [] result w = (result, w)"
| "load_dependencies interactive pf (dependency # rest) result w =
     (case Mark (file_consumer_shared w) dependency of
        (fresh, fc) \<Rightarrow>
          if \<not> fresh then load_dependencies interactive pf rest result (w\<lparr>file_consumer_shared := fc\<rparr>)
          else
            (case TryTakeOrLoad (cache_manager w) dependency of
               (None, cm) \<Rightarrow>
                 load_dependencies interactive pf rest result
                   (w\<lparr>file_consumer_shared := fc, cache_manager := cm\<rparr>)
             | (Some dependency_index, cm) \<Rightarrow>
                 load_dependencies interactive pf rest
                   (result @ [Index_DoIdMap_ctor (Some dependency_index) pf interactive False])
                   (w\<lparr>file_consumer_shared := fc, cache_manager := cm\<rparr>)))"

definition load_from_cache ::
  "bool \<Rightarrow> IndexFile \<Rightarrow> string \<Rightarrow> World \<Rightarrow> error + (Index_DoIdMap list \<times> World)" where
  "load_from_cache interactive previous_index p w =
     (case TakeOrLoad (cache_manager w) p of
        Inl e \<Rightarrow> Inl e
      | Inr (file, cm) \<Rightarrow>
          Inr (load_dependencies interactive PerformanceImportFile_ctor
                 (dependencies previous_index)
                 [Index_DoIdMap_ctor (Some file) PerformanceImportFile_ctor interactive False]
                 (w\<lparr>cache_manager := cm\<rparr>)))"

text \<open>
  The indexer (\<^verbatim>\<open>IIndexer::Index\<close>) is a collaborator: given the file-consumer set, the
  path, the arguments and the preloaded contents it returns the indexes, the
  file-consumer set as it leaves it, and the timings.
\<close>

type_synonym Indexer =
  "FileConsumerSharedState \<Rightarrow> string \<Rightarrow> string list \<Rightarrow> FileContents list \<Rightarrow>
     IndexFile list \<times> FileConsumerSharedState \<times> PerformanceImportFile"

text \<open>The callback handed to \<^verbatim>\<open>IterateLoadedCaches\<close>, run over the resident files.\<close>

fun preload_contents ::
  "(string \<rightharpoonup> string) \<Rightarrow> string \<Rightarrow> IndexFile list \<Rightarrow> FileContents list \<times> bool \<Rightarrow>
     FileContents list \<times> bool" where
  "preload_contents ReadContent p [] acc = acc"
| "preload_contents ReadContent p (index # rest) (file_contents, loaded_primary) =
     (case ReadContent (path index) of
        None \<Rightarrow> preload_contents ReadContent p rest (file_contents, loaded_primary)
      | Some index_content \<Rightarrow>
          preload_contents ReadContent p rest
            (file_contents @ [\<lparr>fc_path = path index, fc_content = index_content\<rparr>],
             loaded_primary \<or> path index = p))"

text \<open>The loop over the indexes that the indexer returned.\<close>

fun emit_indexes ::
  "bool \<Rightarrow> PerformanceImportFile \<Rightarrow> IndexFile list \<Rightarrow> Index_DoIdMap list \<Rightarrow> World \<Rightarrow>
     Index_DoIdMap list \<times> World" where
  "emit_indexes interactive pf [] result w = (result, w)"
| "emit_indexes interactive pf (new_index # rest) result w =
     emit_indexes interactive pf rest
       (result @ [Index_DoIdMap_ctor (Some new_index) pf interactive True])
       (if \<not> interactive then w\<lparr>calls := calls w @ [Call_EmitDiagnostics (path new_index)]\<rparr>
        else w)"

text \<open>\<^verbatim>\<open>DoParseFile\<close> from the log line "Parsing" on.\<close>

definition parse_file ::
  "Indexer \<Rightarrow> bool \<Rightarrow> string \<Rightarrow> string list \<Rightarrow> FileContents \<Rightarrow> World \<Rightarrow>
     Index_DoIdMap list \<times> World" where
  "parse_file indexer interactive p arguments contents w =
     (case preload_contents (disk_content w) p (IterateLoadedCaches (cache_manager w))
             ([contents], fc_path contents = p) of
        (file_contents, loaded_primary) \<Rightarrow>
          (case (if \<not> loaded_primary then
                   (case disk_content w p of
                      None \<Rightarrow> None
                    | Some content \<Rightarrow> Some (file_contents @ [\<lparr>fc_path = p, fc_content = content\<rparr>]))
                 else Some file_contents) of
             None \<Rightarrow> ([], w)
           | Some file_contents \<Rightarrow>
               (case indexer (file_consumer_shared w) p arguments file_contents of
                  (indexes, fc, pf) \<Rightarrow>
                    emit_indexes interactive pf indexes []
                      (w\<lparr>file_consumer_shared := fc, calls := calls w @ [Call_Index p]\<rparr>))))"

definition DoParseFile ::
  "Indexer \<Rightarrow> bool \<Rightarrow> string \<Rightarrow> string list \<Rightarrow> FileContents \<Rightarrow> World \<Rightarrow>
     error + (Index_DoIdMap list \<times> World)" where
  "DoParseFile indexer interactive p arguments contents w =
     (case TryLoad (cache_manager w) p of
        (None, cm) \<Rightarrow> Inr (parse_file indexer interactive p arguments contents (w\<lparr>cache_manager := cm\<rparr>))
      | (Some previous_index, cm) \<Rightarrow>
          (case check_timestamps interactive previous_index p (w\<lparr>cache_manager := cm\<rparr>) of
             Inl e \<Rightarrow> Inl e
           | Inr (None, w1) \<Rightarrow> Inr ([], w1)
           | Inr (Some needs_reparse, w1) \<Rightarrow>
               if \<not> needs_reparse then load_from_cache interactive previous_index p w1
               else Inr (parse_file indexer interactive p arguments contents w1)))"

record Project_Entry =
  filename :: string
  entry_args :: "string list"

definition ParseFile ::
  "Indexer \<Rightarrow> bool \<Rightarrow> Project_Entry \<Rightarrow> string \<Rightarrow> World \<Rightarrow>
     error + (Index_DoIdMap list \<times> World)" where
  "ParseFile indexer interactive entry contents w =
     (let file_contents = \<lparr>fc_path = filename entry, fc_content = contents\<rparr>
      in case TryLoad (cache_manager w) (filename entry) of
           (entry_cache, cm) \<Rightarrow>
             (let tu_path = (case entry_cache of
                               Some c \<Rightarrow> import_file c
                             | None \<Rightarrow> filename entry)
              in DoParseFile indexer interactive tu_path (entry_args entry) file_contents
                   (w\<lparr>cache_manager := cm\<rparr>)))"

section \<open>The query-database thread (src/import_pipeline.cc, QueryDb_ImportMain)\<close>

record QueryFile_DefUpdate =
  du_path :: string
  inactive_regions :: "Range list"

text \<open>
  Of an \<^verbatim>\<open>IndexUpdate\<close> the thread reads \<^verbatim>\<open>files_def_update\<close>; of the
  \<^verbatim>\<open>QueryDatabase\<close>, \<^verbatim>\<open>usr_to_file\<close> (the file ids are numbers). The id map built for
  an index (\<^verbatim>\<open>IdMap\<close>, \<^verbatim>\<open>query.h\<close>) is the type parameter \<open>'m\<close>.
\<close>

record IndexUpdate =
  files_def_update :: "QueryFile_DefUpdate list"

record Index_OnIndexed =
  oi_update :: IndexUpdate
  oi_perf :: PerformanceImportFile

record 'm OnIdMapped_File =
  mapped_file :: IndexFile
  mapped_ids :: 'm

record 'm Index_OnIdMapped =
  im_current :: "'m OnIdMapped_File option"
  im_previous :: "'m OnIdMapped_File option"
  im_perf :: PerformanceImportFile
  im_is_interactive :: bool
  im_write_to_disk :: bool

record QueryDatabase =
  usr_to_file :: "string \<rightharpoonup> nat"

record WorkingFile =
  wf_filename :: string
  buffer_content :: string
  index_content :: string

text \<open>The four queues of the \<^verbatim>\<open>QueueManager\<close> that this thread touches, heads first.\<close>

record 'm QueueManager =
  do_id_map :: "Index_DoIdMap list"
  load_previous_index :: "Index_DoIdMap list"
  on_id_mapped :: "'m Index_OnIdMapped list"
  on_indexed :: "Index_OnIndexed list"

record 'm QueryDbState =
  queue :: "'m QueueManager"
  db :: QueryDatabase
  q_import_manager :: ImportManager
  working_files :: "string \<rightharpoonup> WorkingFile"
  cached_file_contents :: "string \<rightharpoonup> string"
  q_calls :: "Call list"

text \<open>
  The lambda \<^verbatim>\<open>make_map\<close>; the constructor \<^verbatim>\<open>IdMap(db, id_cache)\<close> is the parameter
  \<open>IdMap_ctor\<close>, which may add to the database.
\<close>

definition make_map ::
  "(QueryDatabase \<Rightarrow> IdCache \<Rightarrow> 'm \<times> QueryDatabase) \<Rightarrow> IndexFile option \<Rightarrow> QueryDatabase \<Rightarrow>
     'm OnIdMapped_File option \<times> QueryDatabase" where
  "make_map IdMap_ctor f d =
     (case f of
        None \<Rightarrow> (None, d)
      | Some f' \<Rightarrow>
          (case IdMap_ctor d (id_cache f') of
             (id_map, d') \<Rightarrow> (Some \<lparr>mapped_file = f', mapped_ids = id_map\<rparr>, d')))"

text \<open>
  The body of the first loop, for a request taken from \<^verbatim>\<open>do_id_map\<close>.
  \<^verbatim>\<open>LowerPathIfCaseInsensitive\<close> (\<^verbatim>\<open>platform.h\<close>) and the timer reading are parameters.
\<close>

definition id_map_step ::
  "(string \<Rightarrow> string) \<Rightarrow> (QueryDatabase \<Rightarrow> IdCache \<Rightarrow> 'm \<times> QueryDatabase) \<Rightarrow> nat \<Rightarrow>
     Index_DoIdMap \<Rightarrow> 'm QueryDbState \<Rightarrow> error + 'm QueryDbState" where
  "id_map_step LowerPathIfCaseInsensitive IdMap_ctor elapsed request st =
     (case current request of
        None \<Rightarrow> Inl AssertionFailed
      | Some cur \<Rightarrow>
          if \<not> load_previous request \<and> previous request = None \<and>
             usr_to_file (db st) (LowerPathIfCaseInsensitive (path cur)) \<noteq> None
          then Inr (st\<lparr>queue := (queue st)\<lparr>load_previous_index :=
                         load_previous_index (queue st) @ [request\<lparr>load_previous := True\<rparr>]\<rparr>\<rparr>)
          else
            (case StartQueryDbImport (q_import_manager st) (path cur) of
               (started, im) \<Rightarrow>
                 (let st1 = st\<lparr> q_import_manager := im,
                                 q_calls := q_calls st @ [Call_StartQueryDbImport (path cur)] \<rparr>
                  in if \<not> started then Inr st1
                     else
                       (case make_map IdMap_ctor (current request) (db st1) of
                          (cur_map, d1) \<Rightarrow>
                            (case make_map IdMap_ctor (previous request) d1 of
                               (prev_map, d2) \<Rightarrow>
                                 (let response =
                                        \<lparr> im_current = cur_map, im_previous = prev_map,
                                          im_perf = (perf request)\<lparr>querydb_id_map := elapsed\<rparr>,
                                          im_is_interactive = is_interactive request,
                                          im_write_to_disk = write_to_disk request \<rparr>
                                  in Inr (st1\<lparr> db := d2,
                                               queue := (queue st1)\<lparr>on_id_mapped :=
                                                 on_id_mapped (queue st1) @ [response]\<rparr> \<rparr>)))))))"

text \<open>The first loop: it runs until \<^verbatim>\<open>do_id_map\<close> is empty.\<close>

fun id_map_loop ::
  "(string \<Rightarrow> string) \<Rightarrow> (QueryDatabase \<Rightarrow> IdCache \<Rightarrow> 'm \<times> QueryDatabase) \<Rightarrow> nat \<Rightarrow>
     Index_DoIdMap list \<Rightarrow> 'm QueryDbState \<Rightarrow> error + 'm QueryDbState" where
  "id_map_loop lower IdMap_ctor elapsed [] st = Inr st"
| "id_map_loop lower IdMap_ctor elapsed (request # rest) st =
     (case id_map_step lower IdMap_ctor elapsed request
             (st\<lparr>queue := (queue st)\<lparr>do_id_map := rest\<rparr>\<rparr>) of
        Inl e \<Rightarrow> Inl e
      | Inr st1 \<Rightarrow> id_map_loop lower IdMap_ctor elapsed rest st1)"

text \<open>The three loops over \<^verbatim>\<open>files_def_update\<close> in the body of the second loop.\<close>

fun update_working_files ::
  "QueryFile_DefUpdate list \<Rightarrow> 'm QueryDbState \<Rightarrow> 'm QueryDbState" where
  "update_working_files [] st = st"
| "update_working_files (updated_file # rest) st =
     update_working_files rest
       (case working_files st (du_path updated_file) of
          None \<Rightarrow> st
        | Some working_file \<Rightarrow>
            st\<lparr> working_files := (working_files st)(du_path updated_file \<mapsto>
                   working_file\<lparr>index_content :=
                     (case cached_file_contents st (du_path updated_file) of
                        Some cached \<Rightarrow> cached
                      | None \<Rightarrow> buffer_content working_file)\<rparr>),
                q_calls := q_calls st @ [Call_EmitInactiveLines (du_path updated_file)] \<rparr>)"

text \<open>
  \<^verbatim>\<open>db->usr_to_file[key]\<close> on a key that is missing would insert a default-made id,
  and \<^verbatim>\<open>db->files[id]\<close> would index the vector with it: that is the result
  \<^term>\<open>IndexOutOfRange\<close>.
\<close>

fun update_highlighting ::
  "(string \<Rightarrow> string) \<Rightarrow> QueryFile_DefUpdate list \<Rightarrow> 'm QueryDbState \<Rightarrow> error + 'm QueryDbState"
  where
  "update_highlighting lower [] st = Inr st"
| "update_highlighting lower (updated_file # rest) st =
     (case working_files st (du_path updated_file) of
        None \<Rightarrow> update_highlighting lower rest st
      | Some working_file \<Rightarrow>
          (case usr_to_file (db st) (lower (wf_filename working_file)) of
             None \<Rightarrow> Inl IndexOutOfRange
           | Some file_id \<Rightarrow>
               update_highlighting lower rest
                 (st\<lparr>q_calls := q_calls st @
                        [Call_EmitSemanticHighlighting (wf_filename working_file)]\<rparr>)))"

fun done_imports :: "QueryFile_DefUpdate list \<Rightarrow> 'm QueryDbState \<Rightarrow> 'm QueryDbState" where
  "done_imports [] st = st"
| "done_imports (updated_file # rest) st =
     done_imports rest
       (st\<lparr> q_import_manager := DoneQueryDbImport (q_import_manager st) (du_path updated_file),
            q_calls := q_calls st @ [Call_DoneQueryDbImport (du_path updated_file)] \<rparr>)"

text \<open>
  The body of the second loop, for a response taken from \<^verbatim>\<open>on_indexed\<close>;
  \<^verbatim>\<open>QueryDatabase::ApplyIndexUpdate\<close> is a parameter.
\<close>

definition apply_step ::
  "(string \<Rightarrow> string) \<Rightarrow> (QueryDatabase \<Rightarrow> IndexUpdate \<Rightarrow> QueryDatabase) \<Rightarrow>
     Index_OnIndexed \<Rightarrow> 'm QueryDbState \<Rightarrow> error + 'm QueryDbState" where
  "apply_step lower ApplyIndexUpdate response st =
     (let updated = files_def_update (oi_update response);
          st1 = update_working_files updated st;
          st2 = st1\<lparr> db := ApplyIndexUpdate (db st1) (oi_update response),
                     q_calls := q_calls st1 @ [Call_ApplyIndexUpdate (map du_path updated)] \<rparr>
      in case update_highlighting lower updated st2 of
           Inl e \<Rightarrow> Inl e
         | Inr st3 \<Rightarrow> Inr (done_imports updated st3))"

fun apply_loop ::
  "(string \<Rightarrow> string) \<Rightarrow> (QueryDatabase \<Rightarrow> IndexUpdate \<Rightarrow> QueryDatabase) \<Rightarrow>
     Index_OnIndexed list \<Rightarrow> 'm QueryDbState \<Rightarrow> error + 'm QueryDbState" where
  "apply_loop lower ApplyIndexUpdate [] st = Inr st"
| "apply_loop lower ApplyIndexUpdate (response # rest) st =
     (case apply_step lower ApplyIndexUpdate response
             (st\<lparr>queue := (queue st)\<lparr>on_indexed := rest\<rparr>\<rparr>) of
        Inl e \<Rightarrow> Inl e
      | Inr st1 \<Rightarrow> apply_loop lower ApplyIndexUpdate rest st1)"

text \<open>
  \<^verbatim>\<open>QueryDb_ImportMain\<close> between the construction and the destruction of its
  \<^verbatim>\<open>ActiveThread\<close>: the two loops, and \<^verbatim>\<open>did_work\<close>.
\<close>

definition QueryDb_ImportMain ::
  "(string \<Rightarrow> string) \<Rightarrow> (QueryDatabase \<Rightarrow> IdCache \<Rightarrow> 'm \<times> QueryDatabase) \<Rightarrow>
     (QueryDatabase \<Rightarrow> IndexUpdate \<Rightarrow> QueryDatabase) \<Rightarrow> nat \<Rightarrow> 'm QueryDbState \<Rightarrow>
     error + (bool \<times> 'm QueryDbState)" where
  "QueryDb_ImportMain lower IdMap_ctor ApplyIndexUpdate elapsed st =
     (case id_map_loop lower IdMap_ctor elapsed (do_id_map (queue st)) st of
        Inl e \<Rightarrow> Inl e
      | Inr st1 \<Rightarrow>
          (case apply_loop lower ApplyIndexUpdate (on_indexed (queue st1)) st1 of
             Inl e \<Rightarrow> Inl e
           | Inr st2 \<Rightarrow>
               Inr (do_id_map (queue st) \<noteq> [] \<or> on_indexed (queue st1) \<noteq> [], st2)))"

text \<open>
  The import gate seen from outside: a run is a sequence of calls of
  \<^verbatim>\<open>StartQueryDbImport\<close> and \<^verbatim>\<open>DoneQueryDbImport\<close>, in the order in which the manager's
  lock admits them. \<open>holders p\<close> counts the calls \<^verbatim>\<open>StartQueryDbImport(p)\<close> that returned
  true and that no \<^verbatim>\<open>DoneQueryDbImport(p)\<close> has matched yet.
\<close>

datatype gate_call = Start string | Done string

fun gate_step ::
  "ImportManager \<times> (string \<Rightarrow> nat) \<Rightarrow> gate_call \<Rightarrow> ImportManager \<times> (string \<Rightarrow> nat)" where
  "gate_step (im, holders) (Start p) =
     (case StartQueryDbImport im p of
        (started, im') \<Rightarrow> (im', if started then holders(p := holders p + 1) else holders))"
| "gate_step (im, holders) (Done p) =
     (DoneQueryDbImport im p, holders(p := holders p - 1))"

definition gate_run ::
  "ImportManager \<times> (string \<Rightarrow> nat) \<Rightarrow> gate_call list \<Rightarrow> ImportManager \<times> (string \<Rightarrow> nat)" where
  "gate_run start gate_calls = foldl gate_step start gate_calls"

section \<open>Notions used in the statements, and fixtures\<close>

text \<open>
  For stating which dependencies the cache-hit branch emits: what
  \<^verbatim>\<open>TryTakeOrLoad(d)\<close> would return from a cache manager (the resident file, else the
  stored one), and the first occurrences of the elements of a list, in order.
\<close>

definition cache_lookup :: "CacheManager \<Rightarrow> string \<Rightarrow> IndexFile option" where
  "cache_lookup cm d = (case map_of (caches cm) d of Some f \<Rightarrow> Some f | None \<Rightarrow> store cm d)"

fun first_occurrences :: "'a list \<Rightarrow> 'a list" where
  "first_occurrences [] = []"
| "first_occurrences (x # xs) = x # filter (\<lambda>y. y \<noteq> x) (first_occurrences xs)"

text \<open>
  One cache manager extends another when every lookup gives the same file and every
  resident file is still resident: what \<^verbatim>\<open>TryLoad\<close> does to the manager.
\<close>

definition cache_extends :: "CacheManager \<Rightarrow> CacheManager \<Rightarrow> bool" where
  "cache_extends cm cm' \<longleftrightarrow>
     (\<forall>k. cache_lookup cm' k = cache_lookup cm k) \<and>
     (\<forall>k f. map_of (caches cm) k = Some f \<longrightarrow> map_of (caches cm') k = Some f)"

text \<open>
  A fixture (the spec's scenario "cache hit with unchanged dependencies"): \<^verbatim>\<open>a.cc\<close>
  with the dependency \<^verbatim>\<open>h.h\<close>, both in the cache store, their timestamps recorded
  equal to those on disk.
\<close>

definition fixture_a_cc :: IndexFile where
  "fixture_a_cc =
     (IndexFile_ctor ''a.cc'')\<lparr> last_modification_time := 5, import_file := ''a.cc'',
                                dependencies := [''h.h''] \<rparr>"

definition fixture_h_h :: IndexFile where
  "fixture_h_h =
     (IndexFile_ctor ''h.h'')\<lparr> last_modification_time := 7, import_file := ''a.cc'' \<rparr>"

definition fixture_world :: World where
  "fixture_world =
     \<lparr> disk_mtime = [''a.cc'' \<mapsto> 5, ''h.h'' \<mapsto> 7],
       disk_content = [''a.cc'' \<mapsto> ''int a;'', ''h.h'' \<mapsto> ''int h;''],
       timestamp_manager = \<lparr>timestamps = [''a.cc'' \<mapsto> 5, ''h.h'' \<mapsto> 7]\<rparr>,
       import_manager = \<lparr>dependency_imported = {}, querydb_processing = {}\<rparr>,
       file_consumer_shared = \<lparr>used_files = {}\<rparr>,
       cache_manager = \<lparr>caches = [], store = [''a.cc'' \<mapsto> fixture_a_cc, ''h.h'' \<mapsto> fixture_h_h]\<rparr>,
       calls = [] \<rparr>"

text \<open>An indexer that returns no index, for running the fixture.\<close>

definition fixture_indexer :: Indexer where
  "fixture_indexer fc p arguments file_contents = ([], fc, PerformanceImportFile_ctor)"

text \<open>
  Fixtures for the query-database thread: a request for \<^verbatim>\<open>a.cc\<close> as the parse stage
  makes it, a state with nothing queued, and an id-map constructor that builds nothing.
\<close>

definition fixture_request :: Index_DoIdMap where
  "fixture_request = Index_DoIdMap_ctor (Some fixture_a_cc) PerformanceImportFile_ctor False True"

definition fixture_state :: "unit QueryDbState" where
  "fixture_state =
     \<lparr> queue = \<lparr>do_id_map = [], load_previous_index = [], on_id_mapped = [], on_indexed = []\<rparr>,
       db = \<lparr>usr_to_file = Map.empty\<rparr>,
       q_import_manager = \<lparr>dependency_imported = {}, querydb_processing = {}\<rparr>,
       working_files = Map.empty,
       cached_file_contents = Map.empty,
       q_calls = [] \<rparr>"

definition fixture_IdMap_ctor :: "QueryDatabase \<Rightarrow> IdCache \<Rightarrow> unit \<times> QueryDatabase" where
  "fixture_IdMap_ctor d c = ((), d)"

text \<open>An update that mentions \<^verbatim>\<open>a.cc\<close>, and a database that applying an update leaves as it is.\<close>

definition fixture_response :: Index_OnIndexed where
  "fixture_response =
     \<lparr> oi_update = \<lparr>files_def_update = [\<lparr>du_path = ''a.cc'', inactive_regions = []\<rparr>]\<rparr>,
       oi_perf = PerformanceImportFile_ctor \<rparr>"

definition fixture_ApplyIndexUpdate :: "QueryDatabase \<Rightarrow> IndexUpdate \<Rightarrow> QueryDatabase" where
  "fixture_ApplyIndexUpdate d u = d"

text \<open>
  For stating the round trip: \<^verbatim>\<open>Deserialize(format, f.path, Serialize(format, f),
  kCurrentVersion)\<close>, together with the file as \<^verbatim>\<open>Serialize\<close> leaves it.
\<close>

definition round_trip ::
  "int \<Rightarrow> bool \<Rightarrow> SerializeFormat \<Rightarrow> IndexFile \<Rightarrow> error + (IndexFile option \<times> IndexFile)" where
  "round_trip kCurrentVersion gTestOutputMode format f =
     (case Serialize kCurrentVersion gTestOutputMode format f of
        Inl e \<Rightarrow> Inl e
      | Inr (payload, f') \<Rightarrow>
          Inr (Deserialize gTestOutputMode format (path f') payload (Some kCurrentVersion), f'))"

text \<open>The id cache that \<^verbatim>\<open>Deserialize\<close> rebuilds for a path from the three symbol lists.\<close>

definition rebuilt_id_cache ::
  "string \<Rightarrow> IndexType list \<Rightarrow> IndexFunc list \<Rightarrow> IndexVar list \<Rightarrow> IdCache" where
  "rebuilt_id_cache p ts fs vs =
     restore_vars vs (restore_funcs fs (restore_types ts (IdCache_ctor p)))"

text \<open>
  The spec's invariant of an index file, as far as the id cache goes: ids and USRs are
  unique per kind, and the cache maps, in both directions, exactly the symbols of the
  file; the cache is the one of the file's path.
\<close>

definition ids_consistent :: "IndexFile \<Rightarrow> bool" where
  "ids_consistent f \<longleftrightarrow>
     primary_file (id_cache f) = path f \<and>
     distinct (map t_id (types f)) \<and> distinct (map t_usr (types f)) \<and>
     distinct (map f_id (funcs f)) \<and> distinct (map f_usr (funcs f)) \<and>
     distinct (map v_id (vars f)) \<and> distinct (map v_usr (vars f)) \<and>
     type_id_to_usr (id_cache f) = map_of (map (\<lambda>x. (t_id x, t_usr x)) (types f)) \<and>
     usr_to_type_id (id_cache f) = map_of (map (\<lambda>x. (t_usr x, t_id x)) (types f)) \<and>
     func_id_to_usr (id_cache f) = map_of (map (\<lambda>x. (f_id x, f_usr x)) (funcs f)) \<and>
     usr_to_func_id (id_cache f) = map_of (map (\<lambda>x. (f_usr x, f_id x)) (funcs f)) \<and>
     var_id_to_usr (id_cache f) = map_of (map (\<lambda>x. (v_id x, v_usr x)) (vars f)) \<and>
     usr_to_var_id (id_cache f) = map_of (map (\<lambda>x. (v_usr x, v_id x)) (vars f))"

text \<open>
  A fixture for the serializer: an index file with the fundamental type (USR \<^verbatim>\<open>""\<close>),
  a second type, a function and a variable.
\<close>

definition fixture_symbols :: IndexFile where
  "fixture_symbols =
     (IndexFile_ctor ''s.cc'')
       \<lparr> id_cache :=
           \<lparr> primary_file = ''s.cc'',
             usr_to_type_id = [''c:@S@Foo'' \<mapsto> 1, [] \<mapsto> 0],
             usr_to_func_id = [''c:@F@foo#'' \<mapsto> 0],
             usr_to_var_id = [''c:@x'' \<mapsto> 0],
             type_id_to_usr = [1 \<mapsto> ''c:@S@Foo'', 0 \<mapsto> []],
             func_id_to_usr = [0 \<mapsto> ''c:@F@foo#''],
             var_id_to_usr = [0 \<mapsto> ''c:@x''] \<rparr>,
         version := 3,
         last_modification_time := 42,
         language := Cpp,
         import_file := ''s.cc'',
         args := [''-std=c++11''],
         includes' := [\<lparr>line = 0, resolved_path = ''/usr/include/h.h''\<rparr>],
         dependencies := [''/usr/include/h.h''],
         types := [\<lparr>t_id = 0, t_usr = [], t_short_name = [], t_uses = []\<rparr>,
                   \<lparr>t_id = 1, t_usr = ''c:@S@Foo'', t_short_name = ''Foo'', t_uses = [((1, 8), (1, 11))]\<rparr>],
         funcs := [\<lparr>f_id = 0, f_usr = ''c:@F@foo#''\<rparr>],
         vars := [\<lparr>v_id = 0, v_usr = ''c:@x''\<rparr>] \<rparr>"

section \<open>Properties of the serializer\<close>

lemma GetBaseName_tests:
  "GetBaseName ''foo.cc'' = ''foo.cc''"
  "GetBaseName ''foo/foo.cc'' = ''foo.cc''"
  "GetBaseName ''/foo.cc'' = ''foo.cc''"
  "GetBaseName ''///foo.cc'' = ''foo.cc''"
  "GetBaseName ''bar/'' = ''bar/''"
  "GetBaseName ''foobar/bar/'' = ''foobar/bar/''"
  by (simp_all add: GetBaseName_def)

lemma Reflect_Writer_IndexFile_Inr:
  assumes "Reflect_Writer_IndexFile cur tm f = Inr (m, f')"
  shows "ReflectMemberStart cur f = Inr f'"
  using assms by (auto simp: Reflect_Writer_IndexFile_def split: sum.splits)

lemma ReflectMemberStart_version:
  "ReflectMemberStart cur f = Inr f' \<Longrightarrow> version f' = cur"
  by (auto simp: ReflectMemberStart_def Let_def split: option.splits if_splits)

lemma ReflectMemberStart_ignores_version:
  "ReflectMemberStart cur (f\<lparr>version := v\<rparr>) = ReflectMemberStart cur f"
  by (auto simp: ReflectMemberStart_def Let_def split: option.splits if_splits)

lemma Serialize_eq:
  "Serialize cur tm format f =
     (case Reflect_Writer_IndexFile cur tm f of
        Inl e \<Rightarrow> Inl e
      | Inr (m, f') \<Rightarrow> Inr (Parsed m, f'))"
  by (cases format) (simp_all add: Serialize_def)

text \<open>
  C10. Outside the test-output mode, when \<^verbatim>\<open>Serialize\<close> returns, the file it was
  given holds the current version, the payload carries the current version, and a file
  that differs from the given one in its version alone gives the same payload and the
  same file.
\<close>

theorem Serialize_stamps_current_version:
  assumes "Serialize kCurrentVersion False format f = Inr (payload, f')"
  shows "version f' = kCurrentVersion \<and>
         (\<exists>m. payload = Parsed m \<and> m_version m = Some kCurrentVersion) \<and>
         Serialize kCurrentVersion False format (f\<lparr>version := v\<rparr>) = Inr (payload, f')"
proof -
  from assms obtain m where
    w: "Reflect_Writer_IndexFile kCurrentVersion False f = Inr (m, f')" and p: "payload = Parsed m"
    by (auto simp: Serialize_eq split: sum.splits)
  have s: "ReflectMemberStart kCurrentVersion f = Inr f'"
    using w by (rule Reflect_Writer_IndexFile_Inr)
  have v: "version f' = kCurrentVersion"
    using s by (rule ReflectMemberStart_version)
  have mv: "m_version m = Some kCurrentVersion"
    using w s v by (auto simp: Reflect_Writer_IndexFile_def)
  have "Reflect_Writer_IndexFile kCurrentVersion False (f\<lparr>version := v\<rparr>) =
        Reflect_Writer_IndexFile kCurrentVersion False f"
    by (simp add: Reflect_Writer_IndexFile_def ReflectMemberStart_ignores_version)
  then have "Serialize kCurrentVersion False format (f\<lparr>version := v\<rparr>) = Inr (payload, f')"
    using assms by (simp add: Serialize_eq)
  with v p mv show ?thesis by simp
qed

theorem Serialize_stamps_current_version_witness:
  "\<exists>payload f'.
     Serialize 11 False MessagePack ((IndexFile_ctor ''a.cc'')\<lparr>version := 3\<rparr>) = Inr (payload, f') \<and>
     version f' = 11 \<and>
     (\<exists>m. payload = Parsed m \<and> m_version m = Some 11) \<and>
     Serialize 11 False MessagePack ((IndexFile_ctor ''a.cc'')\<lparr>version := 3, version := 8\<rparr>) =
       Inr (payload, f')"
proof -
  obtain payload f' where
    s: "Serialize 11 False MessagePack ((IndexFile_ctor ''a.cc'')\<lparr>version := 3\<rparr>) = Inr (payload, f')"
    by (simp add: Serialize_def Reflect_Writer_IndexFile_def ReflectMemberStart_def
        IndexFile_ctor_def IdCache_ctor_def)
  from Serialize_stamps_current_version [OF s, of 8] s show ?thesis
    by blast
qed

section \<open>Properties of the progress reporting\<close>

lemma EmitProgress_counter:
  "num_active_threads (fst (EmitProgress config status sizes now1 now2)) =
   num_active_threads status"
  by (simp add: EmitProgress_def Let_def)

lemma ActiveThread_ctor_counter:
  "num_active_threads (ActiveThread_ctor config status) =
     (if progressReportFrequencyMs config < 0 then num_active_threads status
      else num_active_threads status + 1)"
  by (simp add: ActiveThread_ctor_def)

lemma ActiveThread_dtor_counter:
  "num_active_threads (fst (ActiveThread_dtor config status sizes now1 now2)) =
     (if progressReportFrequencyMs config < 0 then num_active_threads status
      else num_active_threads status - 1)"
  by (simp add: ActiveThread_dtor_def EmitProgress_counter)

text \<open>
  C4, as stated, fails: with a frequency of 100 ms, one request waiting in
  \<^verbatim>\<open>index_request\<close> and the clock (5) before \<^verbatim>\<open>next_progress_output\<close> (50), a worker
  that leaves the loop body emits nothing, although a reported counter is not zero.
\<close>

theorem ActiveThread_progress_counterexample:
  "0 < progressReportFrequencyMs \<lparr>progressReportFrequencyMs = 100\<rparr> \<and>
   index_request_size \<lparr>index_request_size = 1, do_id_map_size = 0, load_previous_index_size = 0,
                       on_id_mapped_size = 0, on_indexed_size = 0\<rparr> \<noteq> 0 \<and>
   snd (ActiveThread_dtor \<lparr>progressReportFrequencyMs = 100\<rparr>
          \<lparr>num_active_threads = 1, next_progress_output = 50\<rparr>
          \<lparr>index_request_size = 1, do_id_map_size = 0, load_previous_index_size = 0,
            on_id_mapped_size = 0, on_indexed_size = 0\<rparr> 5 5) = None"
  by (simp add: ActiveThread_dtor_def EmitProgress_def)

text \<open>
  C4, amended. With a positive frequency, a worker that leaves the loop body (its
  counter already decremented) emits nothing when some reported counter is not zero and
  the clock is before \<^verbatim>\<open>next_progress_output\<close>; it emits a message when all six
  counters are zero and the clock is not before \<^verbatim>\<open>next_progress_output\<close>. A message
  that is emitted holds the five queue sizes and the decremented thread count, and
  \<^verbatim>\<open>next_progress_output\<close> becomes the (second) clock reading plus the frequency;
  when nothing is emitted \<^verbatim>\<open>next_progress_output\<close> stays as it was.
\<close>

theorem ActiveThread_progress:
  assumes "0 < progressReportFrequencyMs config"
  shows
    "(let leaving = status\<lparr>num_active_threads := num_active_threads status - 1\<rparr>;
          out = reported_counters leaving sizes;
          result = ActiveThread_dtor config status sizes now1 now2
      in (\<not> all_counters_zero out \<and> now1 < next_progress_output status \<longrightarrow>
            result = (leaving, None)) \<and>
         (all_counters_zero out \<and> next_progress_output status \<le> now1 \<longrightarrow>
            result = (leaving\<lparr>next_progress_output := now2 + progressReportFrequencyMs config\<rparr>,
                      Some out)) \<and>
         (snd result = None \<longrightarrow> fst result = leaving) \<and>
         (snd result \<noteq> None \<longrightarrow>
            snd result = Some out \<and>
            fst result = leaving\<lparr>next_progress_output := now2 + progressReportFrequencyMs config\<rparr>))"
  using assms
  by (auto simp: ActiveThread_dtor_def EmitProgress_def Let_def reported_counters_def
      all_counters_zero_def)

theorem ActiveThread_progress_witness:
  "0 < progressReportFrequencyMs \<lparr>progressReportFrequencyMs = 100\<rparr> \<and>
   ActiveThread_dtor \<lparr>progressReportFrequencyMs = 100\<rparr>
     \<lparr>num_active_threads = 1, next_progress_output = 50\<rparr>
     \<lparr>index_request_size = 0, do_id_map_size = 0, load_previous_index_size = 0,
       on_id_mapped_size = 0, on_indexed_size = 0\<rparr> 60 61 =
     (\<lparr>num_active_threads = 0, next_progress_output = 161\<rparr>,
      Some \<lparr>indexRequestCount = 0, doIdMapCount = 0, loadPreviousIndexCount = 0,
             onIdMappedCount = 0, onIndexedCount = 0, activeThreads = 0\<rparr>) \<and>
   ActiveThread_dtor \<lparr>progressReportFrequencyMs = 100\<rparr>
     \<lparr>num_active_threads = 2, next_progress_output = 50\<rparr>
     \<lparr>index_request_size = 3, do_id_map_size = 0, load_previous_index_size = 0,
       on_id_mapped_size = 0, on_indexed_size = 0\<rparr> 20 21 =
     (\<lparr>num_active_threads = 1, next_progress_output = 50\<rparr>, None)"
proof -
  have h: "0 < progressReportFrequencyMs \<lparr>progressReportFrequencyMs = 100\<rparr>"
    by simp
  have idle: "ActiveThread_dtor \<lparr>progressReportFrequencyMs = 100\<rparr>
     \<lparr>num_active_threads = 1, next_progress_output = 50\<rparr>
     \<lparr>index_request_size = 0, do_id_map_size = 0, load_previous_index_size = 0,
       on_id_mapped_size = 0, on_indexed_size = 0\<rparr> 60 61 =
     (\<lparr>num_active_threads = 0, next_progress_output = 161\<rparr>,
      Some \<lparr>indexRequestCount = 0, doIdMapCount = 0, loadPreviousIndexCount = 0,
             onIdMappedCount = 0, onIndexedCount = 0, activeThreads = 0\<rparr>)"
    using ActiveThread_progress [OF h, of "\<lparr>num_active_threads = 1, next_progress_output = 50\<rparr>"
        "\<lparr>index_request_size = 0, do_id_map_size = 0, load_previous_index_size = 0,
          on_id_mapped_size = 0, on_indexed_size = 0\<rparr>" 60 61,
        unfolded Let_def, THEN conjunct2, THEN conjunct1]
    by (simp add: reported_counters_def all_counters_zero_def)
  have busy: "ActiveThread_dtor \<lparr>progressReportFrequencyMs = 100\<rparr>
     \<lparr>num_active_threads = 2, next_progress_output = 50\<rparr>
     \<lparr>index_request_size = 3, do_id_map_size = 0, load_previous_index_size = 0,
       on_id_mapped_size = 0, on_indexed_size = 0\<rparr> 20 21 =
     (\<lparr>num_active_threads = 1, next_progress_output = 50\<rparr>, None)"
    using ActiveThread_progress [OF h, of "\<lparr>num_active_threads = 2, next_progress_output = 50\<rparr>"
        "\<lparr>index_request_size = 3, do_id_map_size = 0, load_previous_index_size = 0,
          on_id_mapped_size = 0, on_indexed_size = 0\<rparr>" 20 21,
        unfolded Let_def, THEN conjunct1]
    by (simp add: reported_counters_def all_counters_zero_def)
  from h idle busy show ?thesis by blast
qed

lemma worker_step_count:
  assumes "0 \<le> progressReportFrequencyMs config" and "finite inside"
  shows "finite (fst (worker_step config (inside, status) ev)) \<and>
         num_active_threads (snd (worker_step config (inside, status) ev)) -
           int (card (fst (worker_step config (inside, status) ev))) =
         num_active_threads status - int (card inside)"
proof (cases ev)
  case (Enter t)
  with assms show ?thesis
    by (simp add: ActiveThread_ctor_counter)
next
  case (Leave t sizes now1 now2)
  show ?thesis
  proof (cases "t \<in> inside")
    case True
    then have "0 < card inside"
      using assms(2) by (auto simp: card_gt_0_iff)
    then have "int (card (inside - {t})) = int (card inside) - 1"
      using True assms(2) by (simp add: card_Diff_singleton of_nat_diff)
    with True Leave assms show ?thesis
      by (simp add: ActiveThread_dtor_counter)
  next
    case False
    with Leave assms show ?thesis by simp
  qed
qed

lemma workers_run_count:
  assumes "0 \<le> progressReportFrequencyMs config" and "finite inside"
  shows "num_active_threads (snd (workers_run config (inside, status) events)) -
           int (card (fst (workers_run config (inside, status) events))) =
         num_active_threads status - int (card inside)"
  using assms(2) unfolding workers_run_def
proof (induction events arbitrary: inside status)
  case Nil
  then show ?case by simp
next
  case (Cons ev events)
  obtain inside' status' where st: "worker_step config (inside, status) ev = (inside', status')"
    by (cases "worker_step config (inside, status) ev")
  from worker_step_count [OF assms(1) Cons.prems, of status ev] st
  have f: "finite inside'"
    and c: "num_active_threads status' - int (card inside') =
            num_active_threads status - int (card inside)"
    by simp_all
  from Cons.IH [OF f, of status'] st c show ?case by simp
qed

text \<open>
  C8, as stated, fails: with a negative \<^verbatim>\<open>progressReportFrequencyMs\<close> entering the loop
  body does not increment the counter.
\<close>

theorem ActiveThread_accounting_counterexample:
  "num_active_threads
     (ActiveThread_ctor \<lparr>progressReportFrequencyMs = - 1\<rparr>
        \<lparr>num_active_threads = 0, next_progress_output = 0\<rparr>) = 0"
  by (simp add: ActiveThread_ctor_def)

text \<open>
  C8, amended. When \<^verbatim>\<open>progressReportFrequencyMs\<close> is not negative, entering the loop
  body increments \<^verbatim>\<open>num_active_threads\<close> and leaving it decrements it; when it is
  negative neither touches the counter. For every value, a pass (entry then exit) leaves
  the counter as it found it. When the frequency is not negative and workers enter and
  leave in any order, starting with none inside and the counter at zero, the counter
  equals the number of workers inside the body.
\<close>

theorem ActiveThread_accounting:
  "num_active_threads (ActiveThread_ctor config status) =
     (if progressReportFrequencyMs config < 0 then num_active_threads status
      else num_active_threads status + 1) \<and>
   num_active_threads (fst (ActiveThread_dtor config status sizes now1 now2)) =
     (if progressReportFrequencyMs config < 0 then num_active_threads status
      else num_active_threads status - 1) \<and>
   num_active_threads
     (fst (ActiveThread_dtor config (ActiveThread_ctor config status) sizes now1 now2)) =
     num_active_threads status \<and>
   (0 \<le> progressReportFrequencyMs config \<longrightarrow>
      num_active_threads (snd (workers_run config ({}, ImportPipelineStatus_ctor) events)) =
      int (card (fst (workers_run config ({}, ImportPipelineStatus_ctor) events))))"
proof -
  have "num_active_threads (snd (workers_run config ({}, ImportPipelineStatus_ctor) events)) =
        int (card (fst (workers_run config ({}, ImportPipelineStatus_ctor) events)))"
    if "0 \<le> progressReportFrequencyMs config"
    using workers_run_count [OF that, of "{}" ImportPipelineStatus_ctor events]
    by (simp add: ImportPipelineStatus_ctor_def)
  then show ?thesis
    by (simp add: ActiveThread_ctor_counter ActiveThread_dtor_counter)
qed

theorem ActiveThread_accounting_witness:
  "0 \<le> progressReportFrequencyMs \<lparr>progressReportFrequencyMs = 0\<rparr> \<and>
   num_active_threads
     (snd (workers_run \<lparr>progressReportFrequencyMs = 0\<rparr> ({}, ImportPipelineStatus_ctor)
        [Enter 1, Enter 2,
         Leave 1 \<lparr>index_request_size = 0, do_id_map_size = 0, load_previous_index_size = 0,
                   on_id_mapped_size = 0, on_indexed_size = 0\<rparr> 7 7,
         Enter 3])) = 2 \<and>
   fst (workers_run \<lparr>progressReportFrequencyMs = 0\<rparr> ({}, ImportPipelineStatus_ctor)
        [Enter 1, Enter 2,
         Leave 1 \<lparr>index_request_size = 0, do_id_map_size = 0, load_previous_index_size = 0,
                   on_id_mapped_size = 0, on_indexed_size = 0\<rparr> 7 7,
         Enter 3]) = {3, 2}"
proof -
  have h: "0 \<le> progressReportFrequencyMs \<lparr>progressReportFrequencyMs = 0\<rparr>"
    by simp
  have e: "fst (workers_run \<lparr>progressReportFrequencyMs = 0\<rparr> ({}, ImportPipelineStatus_ctor)
        [Enter 1, Enter 2,
         Leave 1 \<lparr>index_request_size = 0, do_id_map_size = 0, load_previous_index_size = 0,
                   on_id_mapped_size = 0, on_indexed_size = 0\<rparr> 7 7,
         Enter 3]) = {3, 2}"
    by (simp add: workers_run_def insert_Diff_if)
  have c: "num_active_threads
     (snd (workers_run \<lparr>progressReportFrequencyMs = 0\<rparr> ({}, ImportPipelineStatus_ctor)
        [Enter 1, Enter 2,
         Leave 1 \<lparr>index_request_size = 0, do_id_map_size = 0, load_previous_index_size = 0,
                   on_id_mapped_size = 0, on_indexed_size = 0\<rparr> 7 7,
         Enter 3])) = int (card {3::nat, 2})"
    using ActiveThread_accounting [of "\<lparr>progressReportFrequencyMs = 0\<rparr>" ImportPipelineStatus_ctor
        "\<lparr>index_request_size = 0, do_id_map_size = 0, load_previous_index_size = 0,
          on_id_mapped_size = 0, on_indexed_size = 0\<rparr>" 7 7
        "[Enter 1, Enter 2,
         Leave 1 \<lparr>index_request_size = 0, do_id_map_size = 0, load_previous_index_size = 0,
                   on_id_mapped_size = 0, on_indexed_size = 0\<rparr> 7 7,
         Enter 3]", THEN conjunct2, THEN conjunct2, THEN conjunct2, rule_format, OF h]
    unfolding e .
  from h e c show ?thesis by simp
qed

section \<open>Properties of the parse stage\<close>

lemma TryLoad_cache_lookup:
  "fst (TryLoad cm p) = cache_lookup cm p"
  by (simp add: TryLoad_def cache_lookup_def split: option.splits)

lemma TryTakeOrLoad_cache_lookup:
  "fst (TryTakeOrLoad cm p) = cache_lookup cm p"
  by (simp add: TryTakeOrLoad_def cache_lookup_def split: option.splits)

lemma TryLoad_resident:
  "TryLoad cm p = (Some f, cm') \<Longrightarrow> map_of (caches cm') p = Some f"
  by (auto simp: TryLoad_def map_add_def split: option.splits)

lemma TryLoad_keeps_resident:
  "map_of (caches cm) k = Some f \<Longrightarrow> map_of (caches (snd (TryLoad cm p))) k = Some f"
  by (auto simp: TryLoad_def map_add_def split: option.splits)

lemma TryLoad_same_lookup:
  "cache_lookup (snd (TryLoad cm p)) k = cache_lookup cm k"
  by (auto simp: TryLoad_def cache_lookup_def map_add_def split: option.splits)

lemma TryLoad_None_same:
  "TryLoad cm p = (None, cm') \<Longrightarrow> cm' = cm"
  by (auto simp: TryLoad_def split: option.splits)

text \<open>What the memoizing timestamp lookup leaves alone.\<close>

lemma GetLastCachedModificationTime_frame:
  assumes "GetLastCachedModificationTime w p = (r, w')"
  shows "calls w' = calls w \<and> file_consumer_shared w' = file_consumer_shared w \<and>
         import_manager w' = import_manager w \<and> disk_mtime w' = disk_mtime w \<and>
         disk_content w' = disk_content w \<and>
         cache_manager w' = (if timestamps (timestamp_manager w) p = None
                             then snd (TryLoad (cache_manager w) p) else cache_manager w)"
  using assms
  by (auto simp: GetLastCachedModificationTime_def split: option.splits prod.splits)

lemma GetLastCachedModificationTime_import_manager:
  "fst (GetLastCachedModificationTime (w\<lparr>import_manager := im\<rparr>) p) =
   fst (GetLastCachedModificationTime w p)"
  by (auto simp: GetLastCachedModificationTime_def split: option.splits prod.splits)

lemma file_needs_parse_timestamps_unchanged:
  assumes "disk_mtime w p = Some t" and "fst (GetLastCachedModificationTime w p) = Some t"
  shows "fst (file_needs_parse_timestamps w p) = DoesNotNeedParse \<and>
         calls (snd (file_needs_parse_timestamps w p)) = calls w \<and>
         file_consumer_shared (snd (file_needs_parse_timestamps w p)) = file_consumer_shared w"
proof -
  obtain r w' where g: "GetLastCachedModificationTime w p = (r, w')"
    by (cases "GetLastCachedModificationTime w p")
  with assms(2) have r: "r = Some t" by simp
  from GetLastCachedModificationTime_frame [OF g] g r assms(1) show ?thesis
    by (simp add: file_needs_parse_timestamps_def)
qed

text \<open>
  C1. When the modification time on disk is present and equals the time that the
  timestamp manager returns for the path, and the request is not interactive,
  \<^verbatim>\<open>file_needs_parse\<close> returns \<^verbatim>\<open>DoesNotNeedParse\<close>, for a dependency or not; it
  calls nothing that is recorded (no \<^verbatim>\<open>Reset\<close>), and the file-consumer set is as
  before.
\<close>

theorem file_needs_parse_timestamp_gate:
  assumes "disk_mtime w p = Some t"
      and "fst (GetLastCachedModificationTime w p) = Some t"
      and "\<not> interactive"
  shows "fst (file_needs_parse interactive w p is_dependency) = DoesNotNeedParse \<and>
         calls (snd (file_needs_parse interactive w p is_dependency)) = calls w \<and>
         file_consumer_shared (snd (file_needs_parse interactive w p is_dependency)) =
           file_consumer_shared w"
proof (cases "is_dependency \<and> fst (TryMarkDependencyImported (import_manager w) p)")
  case True
  define w0 where "w0 = w\<lparr>import_manager := snd (TryMarkDependencyImported (import_manager w) p)\<rparr>"
  have m: "disk_mtime w0 p = Some t"
    using assms(1) by (simp add: w0_def)
  have c: "fst (GetLastCachedModificationTime w0 p) = Some t"
    using assms(2) by (simp add: w0_def GetLastCachedModificationTime_import_manager)
  have "file_needs_parse interactive w p is_dependency = file_needs_parse_timestamps w0 p"
    using True assms(3)
    by (cases "TryMarkDependencyImported (import_manager w) p")
      (simp add: file_needs_parse_def w0_def)
  with file_needs_parse_timestamps_unchanged [OF m c] show ?thesis
    by (simp add: w0_def)
next
  case False
  show ?thesis
  proof (cases is_dependency)
    case True
    with False assms(3) show ?thesis
      by (cases "TryMarkDependencyImported (import_manager w) p")
        (simp add: file_needs_parse_def)
  next
    case False
    with file_needs_parse_timestamps_unchanged [OF assms(1) assms(2)] show ?thesis
      by (simp add: file_needs_parse_def)
  qed
qed

theorem file_needs_parse_timestamp_gate_witness:
  "disk_mtime fixture_world ''h.h'' = Some 7 \<and>
   fst (GetLastCachedModificationTime fixture_world ''h.h'') = Some 7 \<and>
   fst (file_needs_parse False fixture_world ''h.h'' True) = DoesNotNeedParse \<and>
   calls (snd (file_needs_parse False fixture_world ''h.h'' True)) = [] \<and>
   file_consumer_shared (snd (file_needs_parse False fixture_world ''h.h'' True)) =
     \<lparr>used_files = {}\<rparr>"
proof -
  have m: "disk_mtime fixture_world ''h.h'' = Some 7"
    by (simp add: fixture_world_def)
  have c: "fst (GetLastCachedModificationTime fixture_world ''h.h'') = Some 7"
    by (simp add: fixture_world_def GetLastCachedModificationTime_def)
  have i: "\<not> False" by simp
  from file_needs_parse_timestamp_gate [OF m c i, of True] m c show ?thesis
    by (simp add: fixture_world_def)
qed

lemma cache_extends_refl: "cache_extends cm cm"
  by (simp add: cache_extends_def)

lemma cache_extends_trans:
  "cache_extends a b \<Longrightarrow> cache_extends b c \<Longrightarrow> cache_extends a c"
  by (simp add: cache_extends_def)

lemma TryLoad_extends: "cache_extends cm (snd (TryLoad cm p))"
  by (simp add: cache_extends_def TryLoad_same_lookup TryLoad_keeps_resident)

lemma GetLastCachedModificationTime_extends:
  "cache_extends (cache_manager w) (cache_manager (snd (GetLastCachedModificationTime w p)))"
  using GetLastCachedModificationTime_frame [of w p]
  by (cases "GetLastCachedModificationTime w p") (simp add: TryLoad_extends cache_extends_refl)

lemma file_needs_parse_timestamps_frame:
  assumes "file_needs_parse_timestamps w p = (q, w')"
  shows "cache_extends (cache_manager w) (cache_manager w') \<and>
         (q \<noteq> NeedsParse \<longrightarrow>
            calls w' = calls w \<and> file_consumer_shared w' = file_consumer_shared w)"
proof -
  obtain r w1 where g: "GetLastCachedModificationTime w p = (r, w1)"
    by (cases "GetLastCachedModificationTime w p")
  from GetLastCachedModificationTime_extends [of w p] g
  have e: "cache_extends (cache_manager w) (cache_manager w1)" by simp
  from GetLastCachedModificationTime_frame [OF g]
  have f: "calls w1 = calls w" "file_consumer_shared w1 = file_consumer_shared w" by simp_all
  from assms g e f show ?thesis
    by (auto simp: file_needs_parse_timestamps_def cache_extends_refl
        split: option.splits if_splits)
qed

lemma file_needs_parse_frame:
  assumes "file_needs_parse interactive w p is_dependency = (q, w')"
  shows "cache_extends (cache_manager w) (cache_manager w') \<and>
         (q \<noteq> NeedsParse \<longrightarrow>
            calls w' = calls w \<and> file_consumer_shared w' = file_consumer_shared w)"
proof (cases "\<not> interactive \<and> is_dependency")
  case True
  obtain marked im where t: "TryMarkDependencyImported (import_manager w) p = (marked, im)"
    by (cases "TryMarkDependencyImported (import_manager w) p")
  show ?thesis
  proof (cases marked)
    case True
    with \<open>\<not> interactive \<and> is_dependency\<close> t assms
    have "file_needs_parse_timestamps (w\<lparr>import_manager := im\<rparr>) p = (q, w')"
      by (simp add: file_needs_parse_def)
    from file_needs_parse_timestamps_frame [OF this] show ?thesis by simp
  next
    case False
    with \<open>\<not> interactive \<and> is_dependency\<close> t assms show ?thesis
      by (auto simp: file_needs_parse_def cache_extends_refl)
  qed
next
  case False
  with assms have "file_needs_parse_timestamps w p = (q, w')"
    by (auto simp: file_needs_parse_def)
  from file_needs_parse_timestamps_frame [OF this] show ?thesis .
qed

lemma check_dependencies_frame:
  assumes "check_dependencies interactive ds needs_reparse w = Inr (needs_reparse', w')"
  shows "(needs_reparse \<longrightarrow> needs_reparse') \<and>
         cache_extends (cache_manager w) (cache_manager w') \<and>
         (\<not> needs_reparse' \<longrightarrow>
            calls w' = calls w \<and> file_consumer_shared w' = file_consumer_shared w)"
  using assms
proof (induction ds arbitrary: needs_reparse w)
  case Nil
  then show ?case by (simp add: cache_extends_refl)
next
  case (Cons d ds)
  from Cons.prems have ne: "d \<noteq> []"
    by (auto split: if_splits)
  obtain q w1 where s: "file_needs_parse interactive w d True = (q, w1)"
    by (cases "file_needs_parse interactive w d True")
  let ?nr = "if q \<noteq> DoesNotNeedParse then True else needs_reparse"
  from Cons.prems ne s
  have r: "check_dependencies interactive ds ?nr w1 = Inr (needs_reparse', w')"
    by simp
  note ih = Cons.IH [OF r]
  note fr = file_needs_parse_frame [OF s]
  from ih fr have e: "cache_extends (cache_manager w) (cache_manager w')"
    by (blast intro: cache_extends_trans)
  have "calls w' = calls w \<and> file_consumer_shared w' = file_consumer_shared w"
    if n: "\<not> needs_reparse'"
  proof -
    from ih n have a: "\<not> ?nr" "calls w' = calls w1" "file_consumer_shared w' = file_consumer_shared w1"
      by blast+
    from a(1) have "q = DoesNotNeedParse" by (auto split: if_splits)
    with fr have "calls w1 = calls w" "file_consumer_shared w1 = file_consumer_shared w"
      by simp_all
    with a show ?thesis by simp
  qed
  moreover have "needs_reparse \<longrightarrow> needs_reparse'"
    using ih by (auto split: if_splits)
  ultimately show ?case using e by blast
qed

lemma check_timestamps_no_reparse:
  assumes "check_timestamps interactive previous_index p w = Inr (Some False, w1)"
  shows "\<not> interactive \<and> calls w1 = calls w \<and>
         file_consumer_shared w1 = file_consumer_shared w \<and>
         cache_extends (cache_manager w) (cache_manager w1)"
proof -
  obtain q w0 where s: "file_needs_parse interactive w p False = (q, w0)"
    by (cases "file_needs_parse interactive w p False")
  from assms s have q: "q \<noteq> NoSuchFile"
    by (auto simp: check_timestamps_def)
  with assms s
  have c: "check_dependencies interactive (dependencies previous_index)
             (interactive \<or> q = NeedsParse) w0 = Inr (False, w1)"
    by (auto simp: check_timestamps_def split: sum.splits)
  note d = check_dependencies_frame [OF c]
  note f = file_needs_parse_frame [OF s]
  from d have n: "\<not> interactive" "q \<noteq> NeedsParse" by blast+
  from d f n show ?thesis
    by (auto intro: cache_extends_trans)
qed

lemma map_of_filter_other:
  "x \<noteq> d \<Longrightarrow> map_of (filter (\<lambda>e. fst e \<noteq> d) xs) x = map_of xs x"
  by (induction xs) auto

lemma cache_lookup_after_take:
  "x \<noteq> d \<Longrightarrow>
   cache_lookup (cm\<lparr>caches := filter (\<lambda>e. fst e \<noteq> d) (caches cm)\<rparr>) x = cache_lookup cm x"
  by (simp add: cache_lookup_def map_of_filter_other split: option.splits)

lemma TryTakeOrLoad_other:
  "x \<noteq> d \<Longrightarrow> cache_lookup (snd (TryTakeOrLoad cm d)) x = cache_lookup cm x"
  by (auto simp: TryTakeOrLoad_def cache_lookup_after_take split: option.splits)

lemma first_occurrences_set: "set (first_occurrences xs) = set xs"
  by (induction xs) auto

lemma first_occurrences_distinct: "distinct (first_occurrences xs)"
  by (induction xs) (auto simp: first_occurrences_set)

lemma emitted_after_mark:
  assumes "\<And>x. x \<noteq> d \<Longrightarrow> look' x = look x"
  shows "map (\<lambda>x. mk (look' x)) (filter (\<lambda>x. x \<notin> insert d U \<and> look' x \<noteq> None) xs) =
         map (\<lambda>x. mk (look x)) (filter (\<lambda>x. x \<notin> U \<and> look x \<noteq> None) (filter (\<lambda>y. y \<noteq> d) xs))"
  by (induction xs) (auto simp: assms)

text \<open>
  The second loop over the dependencies, in closed form: it emits, in order, the first
  occurrence of every dependency that is not yet in the file-consumer set and that the
  cache manager can give, and it marks every dependency.
\<close>

lemma load_dependencies_emits:
  "fst (load_dependencies interactive pf ds result w) =
     result @
     map (\<lambda>d. Index_DoIdMap_ctor (cache_lookup (cache_manager w) d) pf interactive False)
       (filter (\<lambda>d. d \<notin> used_files (file_consumer_shared w) \<and>
                     cache_lookup (cache_manager w) d \<noteq> None)
          (first_occurrences ds))"
proof (induction ds arbitrary: result w)
  case Nil
  show ?case by simp
next
  case (Cons d ds)
  let ?U = "used_files (file_consumer_shared w)"
  let ?cm = "cache_manager w"
  let ?fc = "(file_consumer_shared w)\<lparr>used_files := insert d ?U\<rparr>"
  let ?mk = "\<lambda>f. Index_DoIdMap_ctor f pf interactive False"
  let ?rest = "map (\<lambda>x. ?mk (cache_lookup ?cm x))
                 (filter (\<lambda>x. x \<notin> ?U \<and> cache_lookup ?cm x \<noteq> None)
                    (filter (\<lambda>y. y \<noteq> d) (first_occurrences ds)))"
  show ?case
  proof (cases "d \<in> ?U")
    case True
    have step: "fst (load_dependencies interactive pf (d # ds) result w) =
          fst (load_dependencies interactive pf ds result (w\<lparr>file_consumer_shared := ?fc\<rparr>))"
      using True by (simp add: Mark_def)
    have ih: "fst (load_dependencies interactive pf ds result (w\<lparr>file_consumer_shared := ?fc\<rparr>)) =
       result @ map (\<lambda>x. ?mk (cache_lookup ?cm x))
         (filter (\<lambda>x. x \<notin> insert d ?U \<and> cache_lookup ?cm x \<noteq> None) (first_occurrences ds))"
      by (simp add: Cons.IH)
    have key: "map (\<lambda>x. ?mk (cache_lookup ?cm x))
         (filter (\<lambda>x. x \<notin> insert d ?U \<and> cache_lookup ?cm x \<noteq> None) (first_occurrences ds)) = ?rest"
      by (rule emitted_after_mark) simp
    have rhs: "map (\<lambda>x. ?mk (cache_lookup ?cm x))
         (filter (\<lambda>x. x \<notin> ?U \<and> cache_lookup ?cm x \<noteq> None) (first_occurrences (d # ds))) = ?rest"
      using True by simp
    show ?thesis
      by (simp only: step ih key rhs)
  next
    case False
    obtain r cm' where t: "TryTakeOrLoad ?cm d = (r, cm')"
      by (cases "TryTakeOrLoad ?cm d")
    have r: "r = cache_lookup ?cm d"
      using TryTakeOrLoad_cache_lookup [of ?cm d] t by simp
    have same: "cache_lookup cm' x = cache_lookup ?cm x" if "x \<noteq> d" for x
      using TryTakeOrLoad_other [OF that, of ?cm] t by simp
    let ?w' = "w\<lparr>file_consumer_shared := ?fc, cache_manager := cm'\<rparr>"
    have key: "map (\<lambda>x. ?mk (cache_lookup cm' x))
         (filter (\<lambda>x. x \<notin> insert d ?U \<and> cache_lookup cm' x \<noteq> None) (first_occurrences ds)) = ?rest"
      by (rule emitted_after_mark) (rule same)
    have ih: "fst (load_dependencies interactive pf ds res ?w') =
       res @ map (\<lambda>x. ?mk (cache_lookup cm' x))
         (filter (\<lambda>x. x \<notin> insert d ?U \<and> cache_lookup cm' x \<noteq> None) (first_occurrences ds))"
      for res
      by (simp add: Cons.IH)
    show ?thesis
    proof (cases r)
      case None
      have step: "fst (load_dependencies interactive pf (d # ds) result w) =
            fst (load_dependencies interactive pf ds result ?w')"
        using False t None by (simp add: Mark_def)
      have rhs: "map (\<lambda>x. ?mk (cache_lookup ?cm x))
           (filter (\<lambda>x. x \<notin> ?U \<and> cache_lookup ?cm x \<noteq> None) (first_occurrences (d # ds))) = ?rest"
        using None r by simp
      show ?thesis
        by (simp only: step ih key rhs)
    next
      case (Some dependency_index)
      have step: "fst (load_dependencies interactive pf (d # ds) result w) =
            fst (load_dependencies interactive pf ds
                   (result @ [?mk (Some dependency_index)]) ?w')"
        using False t Some by (simp add: Mark_def)
      have rhs: "map (\<lambda>x. ?mk (cache_lookup ?cm x))
           (filter (\<lambda>x. x \<notin> ?U \<and> cache_lookup ?cm x \<noteq> None) (first_occurrences (d # ds))) =
           ?mk (Some dependency_index) # ?rest"
        using Some r False by simp
      show ?thesis
        by (simp only: step ih key rhs append_assoc append_Cons append_Nil)
    qed
  qed
qed

lemma load_dependencies_frame:
  "calls (snd (load_dependencies interactive pf ds result w)) = calls w \<and>
   used_files (file_consumer_shared (snd (load_dependencies interactive pf ds result w))) =
     used_files (file_consumer_shared w) \<union> set ds"
proof (induction ds arbitrary: result w)
  case Nil
  show ?case by simp
next
  case (Cons d ds)
  obtain r cm' where t: "TryTakeOrLoad (cache_manager w) d = (r, cm')"
    by (cases "TryTakeOrLoad (cache_manager w) d")
  show ?case
    using t by (cases r) (simp_all add: Mark_def Cons.IH)
qed

text \<open>
  C2. When a previous index for the path exists and the timestamp checks end with
  \<^verbatim>\<open>needs_reparse\<close> false: \<^verbatim>\<open>TakeOrLoad(path)\<close> succeeds and gives the previous
  index; \<^verbatim>\<open>DoParseFile\<close> returns one item for it, followed, for the dependencies of
  the previous index in order, by one item for each dependency at its first occurrence
  that is not yet in the file-consumer set (so that \<^verbatim>\<open>Mark\<close> returns true) and that
  the cache manager can give (so that \<^verbatim>\<open>TryTakeOrLoad\<close> returns non-null), and
  nothing else; every item has \<^verbatim>\<open>write_to_disk\<close> false. The request is not interactive,
  no recorded call is made (the indexer is not invoked, whatever it is), and all the
  dependencies end up in the file-consumer set.
\<close>

theorem DoParseFile_cache_hit:
  assumes l: "TryLoad (cache_manager w) p = (Some previous_index, cm)"
      and c: "check_timestamps interactive previous_index p (w\<lparr>cache_manager := cm\<rparr>) =
                Inr (Some False, w1)"
  shows "\<exists>cm1 w2.
      TakeOrLoad (cache_manager w1) p = Inr (previous_index, cm1) \<and>
      DoParseFile indexer interactive p arguments contents w =
        Inr (Index_DoIdMap_ctor (Some previous_index) PerformanceImportFile_ctor interactive False #
             map (\<lambda>d. Index_DoIdMap_ctor (cache_lookup cm1 d) PerformanceImportFile_ctor
                         interactive False)
               (filter (\<lambda>d. d \<notin> used_files (file_consumer_shared w) \<and> cache_lookup cm1 d \<noteq> None)
                  (first_occurrences (dependencies previous_index))),
             w2) \<and>
      \<not> interactive \<and>
      calls w2 = calls w \<and>
      used_files (file_consumer_shared w2) =
        used_files (file_consumer_shared w) \<union> set (dependencies previous_index) \<and>
      (\<forall>d. d \<noteq> p \<longrightarrow> cache_lookup cm1 d = cache_lookup (cache_manager w) d)"
proof -
  from check_timestamps_no_reparse [OF c]
  have ni: "\<not> interactive" and cw: "calls w1 = calls w"
    and fw: "file_consumer_shared w1 = file_consumer_shared w"
    and ex: "cache_extends cm (cache_manager w1)"
    by simp_all
  from TryLoad_resident [OF l] ex
  have res: "map_of (caches (cache_manager w1)) p = Some previous_index"
    by (simp add: cache_extends_def)
  define cm1 where
    "cm1 = (cache_manager w1)\<lparr>caches := filter (\<lambda>e. fst e \<noteq> p) (caches (cache_manager w1))\<rparr>"
  have take: "TakeOrLoad (cache_manager w1) p = Inr (previous_index, cm1)"
    using res by (simp add: TakeOrLoad_def TryTakeOrLoad_def cm1_def)
  define start where
    "start = [Index_DoIdMap_ctor (Some previous_index) PerformanceImportFile_ctor interactive False]"
  define run where
    "run = load_dependencies interactive PerformanceImportFile_ctor (dependencies previous_index)
             start (w1\<lparr>cache_manager := cm1\<rparr>)"
  have d: "DoParseFile indexer interactive p arguments contents w = Inr (fst run, snd run)"
    using l c take by (simp add: DoParseFile_def load_from_cache_def run_def start_def)
  have items: "fst run =
      Index_DoIdMap_ctor (Some previous_index) PerformanceImportFile_ctor interactive False #
      map (\<lambda>d. Index_DoIdMap_ctor (cache_lookup cm1 d) PerformanceImportFile_ctor interactive False)
        (filter (\<lambda>d. d \<notin> used_files (file_consumer_shared w) \<and> cache_lookup cm1 d \<noteq> None)
           (first_occurrences (dependencies previous_index)))"
    unfolding run_def load_dependencies_emits by (simp add: fw start_def)
  from load_dependencies_frame
    [of interactive PerformanceImportFile_ctor "dependencies previous_index" start
      "w1\<lparr>cache_manager := cm1\<rparr>"]
  have fr: "calls (snd run) = calls w"
    "used_files (file_consumer_shared (snd run)) =
       used_files (file_consumer_shared w) \<union> set (dependencies previous_index)"
    by (simp_all add: run_def cw fw)
  have look: "cache_lookup cm1 x = cache_lookup (cache_manager w) x" if "x \<noteq> p" for x
  proof -
    have "cache_lookup cm1 x = cache_lookup (cache_manager w1) x"
      using that by (simp add: cm1_def cache_lookup_after_take)
    also have "\<dots> = cache_lookup cm x"
      using ex by (simp add: cache_extends_def)
    also have "\<dots> = cache_lookup (cache_manager w) x"
      using TryLoad_same_lookup [of "cache_manager w" p x] l by simp
    finally show ?thesis .
  qed
  from take d items ni fr look show ?thesis
    by (intro exI [of _ cm1] exI [of _ "snd run"]) simp
qed

theorem DoParseFile_cache_hit_witness:
  "\<exists>cm w1 w2.
     TryLoad (cache_manager fixture_world) ''a.cc'' = (Some fixture_a_cc, cm) \<and>
     check_timestamps False fixture_a_cc ''a.cc'' (fixture_world\<lparr>cache_manager := cm\<rparr>) =
       Inr (Some False, w1) \<and>
     DoParseFile fixture_indexer False ''a.cc'' [] \<lparr>fc_path = ''a.cc'', fc_content = ''int a;''\<rparr>
       fixture_world =
       Inr ([Index_DoIdMap_ctor (Some fixture_a_cc) PerformanceImportFile_ctor False False,
             Index_DoIdMap_ctor (Some fixture_h_h) PerformanceImportFile_ctor False False], w2) \<and>
     calls w2 = [] \<and>
     used_files (file_consumer_shared w2) = {''h.h''}"
proof -
  obtain cm where l: "TryLoad (cache_manager fixture_world) ''a.cc'' = (Some fixture_a_cc, cm)"
    by (simp add: TryLoad_def fixture_world_def)
  have cm: "cm = \<lparr>caches = [(''a.cc'', fixture_a_cc)],
                  store = [''a.cc'' \<mapsto> fixture_a_cc, ''h.h'' \<mapsto> fixture_h_h]\<rparr>"
    using l by (simp add: TryLoad_def fixture_world_def)
  obtain w1 where
    c: "check_timestamps False fixture_a_cc ''a.cc'' (fixture_world\<lparr>cache_manager := cm\<rparr>) =
          Inr (Some False, w1)"
    by (simp add: cm check_timestamps_def file_needs_parse_def file_needs_parse_timestamps_def
        GetLastCachedModificationTime_def TryMarkDependencyImported_def fixture_world_def
        fixture_a_cc_def IndexFile_ctor_def)
  have deps: "first_occurrences (dependencies fixture_a_cc) = [''h.h'']"
    by (simp add: fixture_a_cc_def IndexFile_ctor_def)
  have look: "cache_lookup (cache_manager fixture_world) ''h.h'' = Some fixture_h_h"
    by (simp add: cache_lookup_def fixture_world_def)
  from DoParseFile_cache_hit [OF l c, of fixture_indexer "[]"
      "\<lparr>fc_path = ''a.cc'', fc_content = ''int a;''\<rparr>"]
  obtain cm1 w2 where
    r: "DoParseFile fixture_indexer False ''a.cc'' [] \<lparr>fc_path = ''a.cc'', fc_content = ''int a;''\<rparr>
          fixture_world =
        Inr (Index_DoIdMap_ctor (Some fixture_a_cc) PerformanceImportFile_ctor False False #
             map (\<lambda>d. Index_DoIdMap_ctor (cache_lookup cm1 d) PerformanceImportFile_ctor False False)
               (filter (\<lambda>d. d \<notin> used_files (file_consumer_shared fixture_world) \<and>
                             cache_lookup cm1 d \<noteq> None)
                  (first_occurrences (dependencies fixture_a_cc))), w2)"
    and k: "calls w2 = calls fixture_world"
    and u: "used_files (file_consumer_shared w2) =
            used_files (file_consumer_shared fixture_world) \<union> set (dependencies fixture_a_cc)"
    and s: "\<forall>d. d \<noteq> ''a.cc'' \<longrightarrow> cache_lookup cm1 d = cache_lookup (cache_manager fixture_world) d"
    by blast
  from s look have h: "cache_lookup cm1 ''h.h'' = Some fixture_h_h"
    by simp
  have "DoParseFile fixture_indexer False ''a.cc'' [] \<lparr>fc_path = ''a.cc'', fc_content = ''int a;''\<rparr>
          fixture_world =
        Inr ([Index_DoIdMap_ctor (Some fixture_a_cc) PerformanceImportFile_ctor False False,
              Index_DoIdMap_ctor (Some fixture_h_h) PerformanceImportFile_ctor False False], w2)"
    unfolding r deps using h by (simp add: fixture_world_def)
  moreover have "calls w2 = []"
    using k by (simp add: fixture_world_def)
  moreover have "used_files (file_consumer_shared w2) = {''h.h''}"
    using u by (simp add: fixture_world_def fixture_a_cc_def IndexFile_ctor_def)
  ultimately show ?thesis
    using l c by blast
qed

text \<open>
  C9. \<^verbatim>\<open>ParseFile\<close> looks the requested path up in the cache. When the cache has an
  index for it, the whole of \<^verbatim>\<open>DoParseFile\<close> runs on that index's \<^verbatim>\<open>import_file\<close>
  in place of the requested path (the file looked up is now resident, and the contents
  handed on stay attributed to the requested path); when it has none,
  \<^verbatim>\<open>DoParseFile\<close> runs on the requested path, from the same state.
\<close>

theorem ParseFile_translation_unit:
  "ParseFile indexer interactive entry contents w =
     (case cache_lookup (cache_manager w) (filename entry) of
        Some entry_cache \<Rightarrow>
          DoParseFile indexer interactive (import_file entry_cache) (entry_args entry)
            \<lparr>fc_path = filename entry, fc_content = contents\<rparr>
            (w\<lparr>cache_manager := snd (TryLoad (cache_manager w) (filename entry))\<rparr>)
      | None \<Rightarrow>
          DoParseFile indexer interactive (filename entry) (entry_args entry)
            \<lparr>fc_path = filename entry, fc_content = contents\<rparr> w)"
proof -
  obtain entry_cache cm where t: "TryLoad (cache_manager w) (filename entry) = (entry_cache, cm)"
    by (cases "TryLoad (cache_manager w) (filename entry)")
  have e: "entry_cache = cache_lookup (cache_manager w) (filename entry)"
    using TryLoad_cache_lookup [of "cache_manager w" "filename entry"] t by simp
  show ?thesis
  proof (cases entry_cache)
    case None
    with e have k: "cache_lookup (cache_manager w) (filename entry) = None"
      by simp
    from None t have "cm = cache_manager w"
      by (simp add: TryLoad_None_same)
    with None t show ?thesis
      unfolding k by (simp add: ParseFile_def)
  next
    case (Some c)
    with e have k: "cache_lookup (cache_manager w) (filename entry) = Some c"
      by simp
    from Some t show ?thesis
      unfolding k by (simp add: ParseFile_def)
  qed
qed

theorem ParseFile_translation_unit_witness:
  "\<exists>w2.
     ParseFile fixture_indexer False \<lparr>filename = ''h.h'', entry_args = []\<rparr> ''int h;''
       fixture_world =
       Inr ([Index_DoIdMap_ctor (Some fixture_a_cc) PerformanceImportFile_ctor False False,
             Index_DoIdMap_ctor (Some fixture_h_h) PerformanceImportFile_ctor False False], w2)"
proof -
  have k: "cache_lookup (cache_manager fixture_world) ''h.h'' = Some fixture_h_h"
    by (simp add: cache_lookup_def fixture_world_def)
  have i: "import_file fixture_h_h = ''a.cc''"
    by (simp add: fixture_h_h_def)
  have d: "dependencies fixture_a_cc = [''h.h'']"
    by (simp add: fixture_a_cc_def IndexFile_ctor_def)
  have "\<exists>w2.
     DoParseFile fixture_indexer False ''a.cc'' [] \<lparr>fc_path = ''h.h'', fc_content = ''int h;''\<rparr>
       (fixture_world\<lparr>cache_manager := snd (TryLoad (cache_manager fixture_world) ''h.h'')\<rparr>) =
       Inr ([Index_DoIdMap_ctor (Some fixture_a_cc) PerformanceImportFile_ctor False False,
             Index_DoIdMap_ctor (Some fixture_h_h) PerformanceImportFile_ctor False False], w2)"
    by (simp add: DoParseFile_def TryLoad_def TryTakeOrLoad_def TakeOrLoad_def Mark_def
        check_timestamps_def file_needs_parse_def file_needs_parse_timestamps_def
        GetLastCachedModificationTime_def TryMarkDependencyImported_def load_from_cache_def
        fixture_world_def d)
  then show ?thesis
    using ParseFile_translation_unit [of fixture_indexer False
        "\<lparr>filename = ''h.h'', entry_args = []\<rparr>" "''int h;''" fixture_world]
    by (simp add: k i)
qed

section \<open>Properties of the query-database thread\<close>

text \<open>
  C3. For a request taken from \<^verbatim>\<open>do_id_map\<close> whose \<^verbatim>\<open>previous\<close> is unset and whose
  \<^verbatim>\<open>load_previous\<close> is false: if \<^verbatim>\<open>db.usr_to_file\<close> has the case-folded current path,
  the request goes to \<^verbatim>\<open>load_previous_index\<close> with \<^verbatim>\<open>load_previous\<close> set, and nothing
  else changes (\<^verbatim>\<open>StartQueryDbImport\<close> is not called); otherwise
  \<^verbatim>\<open>StartQueryDbImport(path)\<close> is called, nothing goes to \<^verbatim>\<open>load_previous_index\<close>,
  and if the call returns false the request is dropped: but for the record of the call
  the state is as before, so nothing is added to \<^verbatim>\<open>on_id_mapped\<close>; if it returns
  true one response is added to \<^verbatim>\<open>on_id_mapped\<close>.
\<close>

theorem id_map_step_routing:
  assumes "current request = Some cur"
      and "previous request = None"
      and "\<not> load_previous request"
  shows
    "(usr_to_file (db st) (lower (path cur)) \<noteq> None \<longrightarrow>
        id_map_step lower IdMap_ctor elapsed request st =
          Inr (st\<lparr>queue := (queue st)\<lparr>load_previous_index :=
                   load_previous_index (queue st) @ [request\<lparr>load_previous := True\<rparr>]\<rparr>\<rparr>)) \<and>
     (usr_to_file (db st) (lower (path cur)) = None \<longrightarrow>
        (\<exists>st'. id_map_step lower IdMap_ctor elapsed request st = Inr st' \<and>
           q_calls st' = q_calls st @ [Call_StartQueryDbImport (path cur)] \<and>
           load_previous_index (queue st') = load_previous_index (queue st) \<and>
           (\<not> fst (StartQueryDbImport (q_import_manager st) (path cur)) \<longrightarrow>
              st' = st\<lparr>q_calls := q_calls st @ [Call_StartQueryDbImport (path cur)]\<rparr>) \<and>
           (fst (StartQueryDbImport (q_import_manager st) (path cur)) \<longrightarrow>
              (\<exists>response. on_id_mapped (queue st') = on_id_mapped (queue st) @ [response]))))"
proof (intro conjI impI)
  assume "usr_to_file (db st) (lower (path cur)) \<noteq> None"
  with assms show "id_map_step lower IdMap_ctor elapsed request st =
      Inr (st\<lparr>queue := (queue st)\<lparr>load_previous_index :=
               load_previous_index (queue st) @ [request\<lparr>load_previous := True\<rparr>]\<rparr>\<rparr>)"
    by (auto simp: id_map_step_def)
next
  assume n: "usr_to_file (db st) (lower (path cur)) = None"
  let ?p = "path cur"
  let ?st1 = "st\<lparr> q_import_manager := snd (StartQueryDbImport (q_import_manager st) ?p),
                   q_calls := q_calls st @ [Call_StartQueryDbImport ?p] \<rparr>"
  show "\<exists>st'. id_map_step lower IdMap_ctor elapsed request st = Inr st' \<and>
           q_calls st' = q_calls st @ [Call_StartQueryDbImport ?p] \<and>
           load_previous_index (queue st') = load_previous_index (queue st) \<and>
           (\<not> fst (StartQueryDbImport (q_import_manager st) ?p) \<longrightarrow>
              st' = st\<lparr>q_calls := q_calls st @ [Call_StartQueryDbImport ?p]\<rparr>) \<and>
           (fst (StartQueryDbImport (q_import_manager st) ?p) \<longrightarrow>
              (\<exists>response. on_id_mapped (queue st') = on_id_mapped (queue st) @ [response]))"
  proof (cases "fst (StartQueryDbImport (q_import_manager st) ?p)")
    case False
    then have "?p \<in> querydb_processing (q_import_manager st)"
      by (simp add: StartQueryDbImport_def)
    then have "snd (StartQueryDbImport (q_import_manager st) ?p) = q_import_manager st"
      by (simp add: StartQueryDbImport_def insert_absorb)
    then have same: "?st1 = st\<lparr>q_calls := q_calls st @ [Call_StartQueryDbImport ?p]\<rparr>"
      by simp
    have "id_map_step lower IdMap_ctor elapsed request st = Inr ?st1"
      using assms n False
      by (cases "StartQueryDbImport (q_import_manager st) ?p") (simp add: id_map_step_def)
    with False same show ?thesis by simp
  next
    case True
    obtain cur_map d1 where m1: "make_map IdMap_ctor (current request) (db st) = (cur_map, d1)"
      by (cases "make_map IdMap_ctor (current request) (db st)")
    obtain prev_map d2 where m2: "make_map IdMap_ctor (previous request) d1 = (prev_map, d2)"
      by (cases "make_map IdMap_ctor (previous request) d1")
    let ?response = "\<lparr> im_current = cur_map, im_previous = prev_map,
                         im_perf = (perf request)\<lparr>querydb_id_map := elapsed\<rparr>,
                         im_is_interactive = is_interactive request,
                         im_write_to_disk = write_to_disk request \<rparr>"
    have "id_map_step lower IdMap_ctor elapsed request st =
          Inr (?st1\<lparr> db := d2,
                    queue := (queue ?st1)\<lparr>on_id_mapped := on_id_mapped (queue ?st1) @ [?response]\<rparr> \<rparr>)"
      using assms n True m1 m2
      by (cases "StartQueryDbImport (q_import_manager st) ?p") (simp add: id_map_step_def)
    with True show ?thesis by simp
  qed
qed

theorem id_map_step_routing_witness:
  "current fixture_request = Some fixture_a_cc \<and>
   previous fixture_request = None \<and>
   \<not> load_previous fixture_request \<and>
   id_map_step (\<lambda>p. p) fixture_IdMap_ctor 0 fixture_request
     (fixture_state\<lparr>db := \<lparr>usr_to_file = [''a.cc'' \<mapsto> 0]\<rparr>\<rparr>) =
     Inr (fixture_state\<lparr> db := \<lparr>usr_to_file = [''a.cc'' \<mapsto> 0]\<rparr>,
            queue := \<lparr> do_id_map = [],
                       load_previous_index = [fixture_request\<lparr>load_previous := True\<rparr>],
                       on_id_mapped = [], on_indexed = [] \<rparr> \<rparr>) \<and>
   id_map_step (\<lambda>p. p) fixture_IdMap_ctor 0 fixture_request
     (fixture_state\<lparr>q_import_manager :=
        \<lparr>dependency_imported = {}, querydb_processing = {''a.cc''}\<rparr>\<rparr>) =
     Inr (fixture_state\<lparr> q_import_manager :=
                           \<lparr>dependency_imported = {}, querydb_processing = {''a.cc''}\<rparr>,
                         q_calls := [Call_StartQueryDbImport ''a.cc''] \<rparr>) \<and>
   (\<exists>st' response.
      id_map_step (\<lambda>p. p) fixture_IdMap_ctor 0 fixture_request fixture_state = Inr st' \<and>
      q_calls st' = [Call_StartQueryDbImport ''a.cc''] \<and>
      on_id_mapped (queue st') = [response])"
proof -
  have a: "current fixture_request = Some fixture_a_cc"
    and b: "previous fixture_request = None"
    and c: "\<not> load_previous fixture_request"
    by (simp_all add: fixture_request_def Index_DoIdMap_ctor_def)
  have p: "path fixture_a_cc = ''a.cc''"
    by (simp add: fixture_a_cc_def IndexFile_ctor_def)
  note r = id_map_step_routing [OF a b c, of _ "\<lambda>p. p" fixture_IdMap_ctor 0]
  have known: "id_map_step (\<lambda>p. p) fixture_IdMap_ctor 0 fixture_request
     (fixture_state\<lparr>db := \<lparr>usr_to_file = [''a.cc'' \<mapsto> 0]\<rparr>\<rparr>) =
     Inr (fixture_state\<lparr> db := \<lparr>usr_to_file = [''a.cc'' \<mapsto> 0]\<rparr>,
            queue := \<lparr> do_id_map = [],
                       load_previous_index = [fixture_request\<lparr>load_previous := True\<rparr>],
                       on_id_mapped = [], on_indexed = [] \<rparr> \<rparr>)"
    using r [of "fixture_state\<lparr>db := \<lparr>usr_to_file = [''a.cc'' \<mapsto> 0]\<rparr>\<rparr>", THEN conjunct1]
    by (simp add: p fixture_state_def)
  from r [of "fixture_state\<lparr>q_import_manager :=
        \<lparr>dependency_imported = {}, querydb_processing = {''a.cc''}\<rparr>\<rparr>", THEN conjunct2]
  obtain st' where
    s: "id_map_step (\<lambda>p. p) fixture_IdMap_ctor 0 fixture_request
          (fixture_state\<lparr>q_import_manager :=
             \<lparr>dependency_imported = {}, querydb_processing = {''a.cc''}\<rparr>\<rparr>) = Inr st'"
    and d: "\<not> fst (StartQueryDbImport
                (q_import_manager (fixture_state\<lparr>q_import_manager :=
                   \<lparr>dependency_imported = {}, querydb_processing = {''a.cc''}\<rparr>\<rparr>))
                (path fixture_a_cc)) \<longrightarrow>
          st' = (fixture_state\<lparr>q_import_manager :=
                   \<lparr>dependency_imported = {}, querydb_processing = {''a.cc''}\<rparr>\<rparr>)
                \<lparr>q_calls := q_calls (fixture_state\<lparr>q_import_manager :=
                   \<lparr>dependency_imported = {}, querydb_processing = {''a.cc''}\<rparr>\<rparr>) @
                   [Call_StartQueryDbImport (path fixture_a_cc)]\<rparr>"
    by (auto simp: p fixture_state_def)
  from d have "st' = fixture_state\<lparr> q_import_manager :=
                           \<lparr>dependency_imported = {}, querydb_processing = {''a.cc''}\<rparr>,
                         q_calls := [Call_StartQueryDbImport ''a.cc''] \<rparr>"
    by (simp add: p StartQueryDbImport_def fixture_state_def)
  with s have dropped: "id_map_step (\<lambda>p. p) fixture_IdMap_ctor 0 fixture_request
     (fixture_state\<lparr>q_import_manager :=
        \<lparr>dependency_imported = {}, querydb_processing = {''a.cc''}\<rparr>\<rparr>) =
     Inr (fixture_state\<lparr> q_import_manager :=
                           \<lparr>dependency_imported = {}, querydb_processing = {''a.cc''}\<rparr>,
                         q_calls := [Call_StartQueryDbImport ''a.cc''] \<rparr>)"
    by simp
  from r [of fixture_state, THEN conjunct2]
  obtain st2 where
    s2: "id_map_step (\<lambda>p. p) fixture_IdMap_ctor 0 fixture_request fixture_state = Inr st2"
    and c2: "q_calls st2 = q_calls fixture_state @ [Call_StartQueryDbImport (path fixture_a_cc)]"
    and e2: "fst (StartQueryDbImport (q_import_manager fixture_state) (path fixture_a_cc)) \<longrightarrow>
             (\<exists>response. on_id_mapped (queue st2) =
                on_id_mapped (queue fixture_state) @ [response])"
    by (auto simp: p fixture_state_def)
  from e2 obtain response where "on_id_mapped (queue st2) = [response]"
    by (auto simp: p StartQueryDbImport_def fixture_state_def)
  with s2 c2 have started: "\<exists>st' response.
      id_map_step (\<lambda>p. p) fixture_IdMap_ctor 0 fixture_request fixture_state = Inr st' \<and>
      q_calls st' = [Call_StartQueryDbImport ''a.cc''] \<and>
      on_id_mapped (queue st') = [response]"
    by (auto simp: p fixture_state_def)
  from known dropped started a b c show ?thesis by blast
qed

lemma gate_step_invariant:
  assumes "\<forall>p. holders p \<le> 1 \<and> (holders p = 1 \<longrightarrow> p \<in> querydb_processing im)"
      and "gate_step (im, holders) c = (im', holders')"
  shows "\<forall>p. holders' p \<le> 1 \<and> (holders' p = 1 \<longrightarrow> p \<in> querydb_processing im')"
proof (cases c)
  case (Start q)
  show ?thesis
  proof (cases "q \<in> querydb_processing im")
    case True
    with assms Start show ?thesis
      by (auto simp: StartQueryDbImport_def)
  next
    case False
    with assms(1) have "holders q \<noteq> 1" by blast
    moreover from assms(1) have "holders q \<le> 1" by blast
    ultimately have "holders q = 0" by simp
    with assms Start False show ?thesis
      by (auto simp: StartQueryDbImport_def split: if_splits)
  qed
next
  case (Done q)
  with assms show ?thesis
    by (auto simp: DoneQueryDbImport_def split: if_splits)
qed

lemma gate_run_invariant:
  assumes "\<forall>p. holders p \<le> 1 \<and> (holders p = 1 \<longrightarrow> p \<in> querydb_processing im)"
  shows "\<forall>p. snd (gate_run (im, holders) cs) p \<le> 1 \<and>
             (snd (gate_run (im, holders) cs) p = 1 \<longrightarrow>
                p \<in> querydb_processing (fst (gate_run (im, holders) cs)))"
  using assms unfolding gate_run_def
proof (induction cs arbitrary: im holders)
  case Nil
  then show ?case by simp
next
  case (Cons c cs)
  obtain im' holders' where s: "gate_step (im, holders) c = (im', holders')"
    by (cases "gate_step (im, holders) c")
  from Cons.IH [OF gate_step_invariant [OF Cons.prems s]] s show ?case
    by simp
qed

lemma gate_run_still_processing:
  assumes "p \<in> querydb_processing im" and "Done p \<notin> set cs"
  shows "p \<in> querydb_processing (fst (gate_run (im, holders) cs))"
  using assms unfolding gate_run_def
proof (induction cs arbitrary: im holders)
  case Nil
  then show ?case by simp
next
  case (Cons c cs)
  obtain im' holders' where s: "gate_step (im, holders) c = (im', holders')"
    by (cases "gate_step (im, holders) c")
  have "p \<in> querydb_processing im'"
  proof (cases c)
    case (Start q)
    with s Cons.prems(1) show ?thesis
      by (auto simp: StartQueryDbImport_def)
  next
    case (Done q)
    with Cons.prems(2) have "q \<noteq> p" by auto
    with Done s Cons.prems(1) show ?thesis
      by (auto simp: DoneQueryDbImport_def)
  qed
  moreover from Cons.prems(2) have "Done p \<notin> set cs" by simp
  ultimately show ?case
    using Cons.IH [of im' holders'] s by simp
qed

lemma update_working_files_calls:
  "\<exists>before. q_calls (update_working_files ups st) = q_calls st @ before \<and>
            set before \<subseteq> range Call_EmitInactiveLines"
proof (induction ups arbitrary: st)
  case Nil
  show ?case by simp
next
  case (Cons u ups)
  show ?case
  proof (cases "working_files st (du_path u)")
    case None
    with Cons.IH [of st] show ?thesis by simp
  next
    case (Some working_file)
    let ?st = "st\<lparr> working_files := (working_files st)(du_path u \<mapsto>
                   working_file\<lparr>index_content :=
                     (case cached_file_contents st (du_path u) of
                        Some cached \<Rightarrow> cached
                      | None \<Rightarrow> buffer_content working_file)\<rparr>),
                q_calls := q_calls st @ [Call_EmitInactiveLines (du_path u)] \<rparr>"
    from Cons.IH [of ?st] obtain before where
      b: "q_calls (update_working_files ups ?st) = q_calls ?st @ before"
         "set before \<subseteq> range Call_EmitInactiveLines"
      by blast
    have "q_calls (update_working_files (u # ups) st) =
          q_calls st @ (Call_EmitInactiveLines (du_path u) # before)"
      using Some b(1) by simp
    moreover have "set (Call_EmitInactiveLines (du_path u) # before) \<subseteq> range Call_EmitInactiveLines"
      using b(2) by auto
    ultimately show ?thesis by blast
  qed
qed

lemma update_working_files_frame:
  "q_import_manager (update_working_files ups st) = q_import_manager st \<and>
   queue (update_working_files ups st) = queue st \<and>
   db (update_working_files ups st) = db st"
  by (induction ups arbitrary: st) (auto split: option.splits)

lemma update_highlighting_calls:
  assumes "update_highlighting lower ups st = Inr st'"
  shows "(\<exists>after. q_calls st' = q_calls st @ after \<and>
            set after \<subseteq> range Call_EmitSemanticHighlighting) \<and>
         q_import_manager st' = q_import_manager st \<and> queue st' = queue st"
  using assms
proof (induction ups arbitrary: st)
  case Nil
  then show ?case by simp
next
  case (Cons u ups)
  show ?case
  proof (cases "working_files st (du_path u)")
    case None
    with Cons.prems have "update_highlighting lower ups st = Inr st'" by simp
    from Cons.IH [OF this] show ?thesis .
  next
    case (Some working_file)
    with Cons.prems obtain file_id where
      f: "usr_to_file (db st) (lower (wf_filename working_file)) = Some file_id"
      by (auto split: option.splits)
    let ?st = "st\<lparr>q_calls := q_calls st @
                 [Call_EmitSemanticHighlighting (wf_filename working_file)]\<rparr>"
    from Cons.prems Some f have "update_highlighting lower ups ?st = Inr st'"
      by simp
    from Cons.IH [OF this] obtain after where
      a: "q_calls st' = q_calls ?st @ after" "set after \<subseteq> range Call_EmitSemanticHighlighting"
      and k: "q_import_manager st' = q_import_manager st" "queue st' = queue st"
      by auto
    have "q_calls st' = q_calls st @ (Call_EmitSemanticHighlighting (wf_filename working_file) # after)"
      using a(1) by simp
    moreover have "set (Call_EmitSemanticHighlighting (wf_filename working_file) # after)
                   \<subseteq> range Call_EmitSemanticHighlighting"
      using a(2) by auto
    ultimately show ?thesis using k by blast
  qed
qed

lemma done_imports_calls:
  "q_calls (done_imports ups st) = q_calls st @ map (\<lambda>u. Call_DoneQueryDbImport (du_path u)) ups \<and>
   querydb_processing (q_import_manager (done_imports ups st)) =
     querydb_processing (q_import_manager st) - du_path ` set ups \<and>
   queue (done_imports ups st) = queue st \<and> db (done_imports ups st) = db st"
  by (induction ups arbitrary: st) (auto simp: DoneQueryDbImport_def)

text \<open>
  C7. The import gate, with the calls of the manager taken as atomic and in any order:
  at no point of a run is more than one successful \<^verbatim>\<open>StartQueryDbImport(p)\<close>
  unmatched by a \<^verbatim>\<open>DoneQueryDbImport(p)\<close>; once \<^verbatim>\<open>StartQueryDbImport(p)\<close> has
  returned true, a later \<^verbatim>\<open>StartQueryDbImport(p)\<close> returns false as long as no
  \<^verbatim>\<open>DoneQueryDbImport(p)\<close> has come. The apply stage, for an update taken from
  \<^verbatim>\<open>on_indexed\<close>, calls \<^verbatim>\<open>ApplyIndexUpdate\<close> once and after it
  \<^verbatim>\<open>DoneQueryDbImport\<close> once for each file of \<^verbatim>\<open>files_def_update\<close>, in order, as its
  last calls; before the update has been applied it calls \<^verbatim>\<open>DoneQueryDbImport\<close>
  for no file, and afterwards the files of the update are out of the gate.
\<close>

theorem import_gate:
  "snd (gate_run (im, (\<lambda>p. 0)) gate_calls) p \<le> 1 \<and>
   (fst (StartQueryDbImport im p) \<and> Done p \<notin> set gate_calls \<longrightarrow>
      \<not> fst (StartQueryDbImport
               (fst (gate_run (snd (StartQueryDbImport im p), holders) gate_calls)) p)) \<and>
   (apply_step lower ApplyIndexUpdate response st = Inr st' \<longrightarrow>
      (\<exists>before after.
         q_calls st' =
           q_calls st @ before @
           [Call_ApplyIndexUpdate (map du_path (files_def_update (oi_update response)))] @
           after @
           map (\<lambda>u. Call_DoneQueryDbImport (du_path u)) (files_def_update (oi_update response)) \<and>
         set before \<subseteq> range Call_EmitInactiveLines \<and>
         set after \<subseteq> range Call_EmitSemanticHighlighting) \<and>
      querydb_processing (q_import_manager st') =
        querydb_processing (q_import_manager st) -
        du_path ` set (files_def_update (oi_update response)))"
proof (intro conjI impI)
  show "snd (gate_run (im, (\<lambda>p. 0)) gate_calls) p \<le> 1"
    using gate_run_invariant [of "\<lambda>p. 0" im gate_calls] by simp
next
  assume a: "fst (StartQueryDbImport im p) \<and> Done p \<notin> set gate_calls"
  have "p \<in> querydb_processing (snd (StartQueryDbImport im p))"
    by (simp add: StartQueryDbImport_def)
  from gate_run_still_processing [OF this, of gate_calls holders] a
  show "\<not> fst (StartQueryDbImport
               (fst (gate_run (snd (StartQueryDbImport im p), holders) gate_calls)) p)"
    by (simp add: StartQueryDbImport_def)
next
  assume s: "apply_step lower ApplyIndexUpdate response st = Inr st'"
  let ?ups = "files_def_update (oi_update response)"
  let ?st1 = "update_working_files ?ups st"
  let ?st2 = "?st1\<lparr> db := ApplyIndexUpdate (db ?st1) (oi_update response),
                     q_calls := q_calls ?st1 @ [Call_ApplyIndexUpdate (map du_path ?ups)] \<rparr>"
  from s obtain st3 where h: "update_highlighting lower ?ups ?st2 = Inr st3"
    and d: "st' = done_imports ?ups st3"
    by (auto simp: apply_step_def Let_def split: sum.splits)
  from update_working_files_calls [of ?ups st] obtain before where
    b: "q_calls ?st1 = q_calls st @ before" "set before \<subseteq> range Call_EmitInactiveLines"
    by blast
  from update_highlighting_calls [OF h] obtain after where
    a: "q_calls st3 = q_calls ?st2 @ after" "set after \<subseteq> range Call_EmitSemanticHighlighting"
    and k: "q_import_manager st3 = q_import_manager ?st2"
    by auto
  have c: "q_calls st' =
      q_calls st @ before @ [Call_ApplyIndexUpdate (map du_path ?ups)] @ after @
      map (\<lambda>u. Call_DoneQueryDbImport (du_path u)) ?ups"
    using d a(1) b(1) done_imports_calls [of ?ups st3] by simp
  with b(2) a(2)
  show "\<exists>before after.
         q_calls st' =
           q_calls st @ before @ [Call_ApplyIndexUpdate (map du_path ?ups)] @ after @
           map (\<lambda>u. Call_DoneQueryDbImport (du_path u)) ?ups \<and>
         set before \<subseteq> range Call_EmitInactiveLines \<and>
         set after \<subseteq> range Call_EmitSemanticHighlighting"
    by blast
  show "querydb_processing (q_import_manager st') =
        querydb_processing (q_import_manager st) - du_path ` set ?ups"
    using d k done_imports_calls [of ?ups st3] update_working_files_frame [of ?ups st]
    by simp
qed
theorem import_gate_witness:
  "fst (StartQueryDbImport \<lparr>dependency_imported = {}, querydb_processing = {}\<rparr> ''a.cc'') \<and>
   Done ''a.cc'' \<notin> set [Start ''b.cc'', Start ''a.cc'', Done ''b.cc''] \<and>
   \<not> fst (StartQueryDbImport
           (fst (gate_run
              (snd (StartQueryDbImport \<lparr>dependency_imported = {}, querydb_processing = {}\<rparr> ''a.cc''),
               (\<lambda>p. 0))
              [Start ''b.cc'', Start ''a.cc'', Done ''b.cc''])) ''a.cc'') \<and>
   snd (gate_run (\<lparr>dependency_imported = {}, querydb_processing = {}\<rparr>, (\<lambda>p. 0))
          [Start ''a.cc'', Start ''a.cc'', Done ''a.cc'', Start ''a.cc'']) ''a.cc'' \<le> 1 \<and>
   (\<exists>st'. apply_step (\<lambda>p. p) fixture_ApplyIndexUpdate fixture_response
            (fixture_state\<lparr>q_import_manager :=
               \<lparr>dependency_imported = {}, querydb_processing = {''a.cc'', ''b.cc''}\<rparr>\<rparr>) = Inr st' \<and>
          querydb_processing (q_import_manager st') = {''b.cc''} \<and>
          q_calls st' = [Call_ApplyIndexUpdate [''a.cc''], Call_DoneQueryDbImport ''a.cc''])"
proof -
  let ?im = "\<lparr>dependency_imported = {}, querydb_processing = {}\<rparr>"
  let ?st = "fixture_state\<lparr>q_import_manager :=
               \<lparr>dependency_imported = {}, querydb_processing = {''a.cc'', ''b.cc''}\<rparr>\<rparr>"
  have s: "fst (StartQueryDbImport ?im ''a.cc'')"
    by (simp add: StartQueryDbImport_def)
  have n: "Done ''a.cc'' \<notin> set [Start ''b.cc'', Start ''a.cc'', Done ''b.cc'']"
    by simp
  obtain st' where r: "apply_step (\<lambda>p. p) fixture_ApplyIndexUpdate fixture_response ?st = Inr st'"
    by (simp add: apply_step_def fixture_response_def fixture_state_def)
  have c: "q_calls st' = [Call_ApplyIndexUpdate [''a.cc''], Call_DoneQueryDbImport ''a.cc'']"
    using r by (auto simp: apply_step_def fixture_response_def fixture_state_def)
  note g = import_gate [of ?im "[Start ''a.cc'', Start ''a.cc'', Done ''a.cc'', Start ''a.cc'']"
      "''a.cc''" "\<lambda>p. 0" "\<lambda>p. p" fixture_ApplyIndexUpdate fixture_response ?st st']
  note h = import_gate [of ?im "[Start ''b.cc'', Start ''a.cc'', Done ''b.cc'']"
      "''a.cc''" "\<lambda>p. 0" "\<lambda>p. p" fixture_ApplyIndexUpdate fixture_response ?st st']
  from g have one: "snd (gate_run (?im, (\<lambda>p. 0))
          [Start ''a.cc'', Start ''a.cc'', Done ''a.cc'', Start ''a.cc'']) ''a.cc'' \<le> 1"
    by (rule conjunct1)
  from h s n have two: "\<not> fst (StartQueryDbImport
           (fst (gate_run (snd (StartQueryDbImport ?im ''a.cc''), (\<lambda>p. 0))
              [Start ''b.cc'', Start ''a.cc'', Done ''b.cc''])) ''a.cc'')"
    by blast
  from g r have "querydb_processing (q_import_manager st') =
      querydb_processing (q_import_manager ?st) -
      du_path ` set (files_def_update (oi_update fixture_response))"
    by blast
  then have three: "querydb_processing (q_import_manager st') = {''b.cc''}"
    by (simp add: fixture_response_def fixture_state_def insert_Diff_if)
  from s n one two r three c show ?thesis by blast
qed

section \<open>Properties of the serializer: round trip and version check\<close>

lemma restore_types_maps:
  assumes "distinct (map t_id ts)" and "distinct (map t_usr ts)"
  shows "restore_types ts c =
           c\<lparr> type_id_to_usr := type_id_to_usr c ++ map_of (map (\<lambda>x. (t_id x, t_usr x)) ts),
              usr_to_type_id := usr_to_type_id c ++ map_of (map (\<lambda>x. (t_usr x, t_id x)) ts) \<rparr>"
  using assms
proof (induction ts arbitrary: c)
  case Nil
  show ?case by simp
next
  case (Cons y ts)
  let ?M1 = "map_of (map (\<lambda>x. (t_id x, t_usr x)) ts)"
  let ?M2 = "map_of (map (\<lambda>x. (t_usr x, t_id x)) ts)"
  have i: "t_id y \<notin> dom ?M1"
    using Cons.prems(1) by (auto simp: dom_map_of_conv_image_fst image_image)
  have u: "t_usr y \<notin> dom ?M2"
    using Cons.prems(2) by (auto simp: dom_map_of_conv_image_fst image_image)
  have A: "(type_id_to_usr c)(t_id y \<mapsto> t_usr y) ++ ?M1 =
           type_id_to_usr c ++ map_of (map (\<lambda>x. (t_id x, t_usr x)) (y # ts))"
    using i by (auto simp: map_add_def fun_eq_iff split: option.splits)
  have B: "(usr_to_type_id c)(t_usr y \<mapsto> t_id y) ++ ?M2 =
           usr_to_type_id c ++ map_of (map (\<lambda>x. (t_usr x, t_id x)) (y # ts))"
    using u by (auto simp: map_add_def fun_eq_iff split: option.splits)
  from Cons.prems have d: "distinct (map t_id ts)" "distinct (map t_usr ts)"
    by simp_all
  have "restore_types (y # ts) c =
        restore_types ts
          (c\<lparr> type_id_to_usr := (type_id_to_usr c)(t_id y \<mapsto> t_usr y),
               usr_to_type_id := (usr_to_type_id c)(t_usr y \<mapsto> t_id y) \<rparr>)"
    by simp
  also have "\<dots> = c\<lparr> type_id_to_usr := (type_id_to_usr c)(t_id y \<mapsto> t_usr y) ++ ?M1,
                      usr_to_type_id := (usr_to_type_id c)(t_usr y \<mapsto> t_id y) ++ ?M2 \<rparr>"
    unfolding Cons.IH [OF d] by simp
  finally show ?case
    unfolding A B .
qed

lemma restore_funcs_maps:
  assumes "distinct (map f_id fs)" and "distinct (map f_usr fs)"
  shows "restore_funcs fs c =
           c\<lparr> func_id_to_usr := func_id_to_usr c ++ map_of (map (\<lambda>x. (f_id x, f_usr x)) fs),
              usr_to_func_id := usr_to_func_id c ++ map_of (map (\<lambda>x. (f_usr x, f_id x)) fs) \<rparr>"
  using assms
proof (induction fs arbitrary: c)
  case Nil
  show ?case by simp
next
  case (Cons y fs)
  let ?M1 = "map_of (map (\<lambda>x. (f_id x, f_usr x)) fs)"
  let ?M2 = "map_of (map (\<lambda>x. (f_usr x, f_id x)) fs)"
  have i: "f_id y \<notin> dom ?M1"
    using Cons.prems(1) by (auto simp: dom_map_of_conv_image_fst image_image)
  have u: "f_usr y \<notin> dom ?M2"
    using Cons.prems(2) by (auto simp: dom_map_of_conv_image_fst image_image)
  have A: "(func_id_to_usr c)(f_id y \<mapsto> f_usr y) ++ ?M1 =
           func_id_to_usr c ++ map_of (map (\<lambda>x. (f_id x, f_usr x)) (y # fs))"
    using i by (auto simp: map_add_def fun_eq_iff split: option.splits)
  have B: "(usr_to_func_id c)(f_usr y \<mapsto> f_id y) ++ ?M2 =
           usr_to_func_id c ++ map_of (map (\<lambda>x. (f_usr x, f_id x)) (y # fs))"
    using u by (auto simp: map_add_def fun_eq_iff split: option.splits)
  from Cons.prems have d: "distinct (map f_id fs)" "distinct (map f_usr fs)"
    by simp_all
  have "restore_funcs (y # fs) c =
        restore_funcs fs
          (c\<lparr> func_id_to_usr := (func_id_to_usr c)(f_id y \<mapsto> f_usr y),
               usr_to_func_id := (usr_to_func_id c)(f_usr y \<mapsto> f_id y) \<rparr>)"
    by simp
  also have "\<dots> = c\<lparr> func_id_to_usr := (func_id_to_usr c)(f_id y \<mapsto> f_usr y) ++ ?M1,
                      usr_to_func_id := (usr_to_func_id c)(f_usr y \<mapsto> f_id y) ++ ?M2 \<rparr>"
    unfolding Cons.IH [OF d] by simp
  finally show ?case
    unfolding A B .
qed

lemma restore_vars_maps:
  assumes "distinct (map v_id vs)" and "distinct (map v_usr vs)"
  shows "restore_vars vs c =
           c\<lparr> var_id_to_usr := var_id_to_usr c ++ map_of (map (\<lambda>x. (v_id x, v_usr x)) vs),
              usr_to_var_id := usr_to_var_id c ++ map_of (map (\<lambda>x. (v_usr x, v_id x)) vs) \<rparr>"
  using assms
proof (induction vs arbitrary: c)
  case Nil
  show ?case by simp
next
  case (Cons y vs)
  let ?M1 = "map_of (map (\<lambda>x. (v_id x, v_usr x)) vs)"
  let ?M2 = "map_of (map (\<lambda>x. (v_usr x, v_id x)) vs)"
  have i: "v_id y \<notin> dom ?M1"
    using Cons.prems(1) by (auto simp: dom_map_of_conv_image_fst image_image)
  have u: "v_usr y \<notin> dom ?M2"
    using Cons.prems(2) by (auto simp: dom_map_of_conv_image_fst image_image)
  have A: "(var_id_to_usr c)(v_id y \<mapsto> v_usr y) ++ ?M1 =
           var_id_to_usr c ++ map_of (map (\<lambda>x. (v_id x, v_usr x)) (y # vs))"
    using i by (auto simp: map_add_def fun_eq_iff split: option.splits)
  have B: "(usr_to_var_id c)(v_usr y \<mapsto> v_id y) ++ ?M2 =
           usr_to_var_id c ++ map_of (map (\<lambda>x. (v_usr x, v_id x)) (y # vs))"
    using u by (auto simp: map_add_def fun_eq_iff split: option.splits)
  from Cons.prems have d: "distinct (map v_id vs)" "distinct (map v_usr vs)"
    by simp_all
  have "restore_vars (y # vs) c =
        restore_vars vs
          (c\<lparr> var_id_to_usr := (var_id_to_usr c)(v_id y \<mapsto> v_usr y),
               usr_to_var_id := (usr_to_var_id c)(v_usr y \<mapsto> v_id y) \<rparr>)"
    by simp
  also have "\<dots> = c\<lparr> var_id_to_usr := (var_id_to_usr c)(v_id y \<mapsto> v_usr y) ++ ?M1,
                      usr_to_var_id := (usr_to_var_id c)(v_usr y \<mapsto> v_id y) ++ ?M2 \<rparr>"
    unfolding Cons.IH [OF d] by simp
  finally show ?case
    unfolding A B .
qed

text \<open>For a consistent file the loops of \<^verbatim>\<open>Deserialize\<close> rebuild the id cache it had.\<close>

lemma rebuilt_id_cache_consistent:
  assumes "ids_consistent f"
  shows "rebuilt_id_cache (path f) (types f) (funcs f) (vars f) = id_cache f"
proof -
  from assms have
    dt: "distinct (map t_id (types f))" "distinct (map t_usr (types f))" and
    df: "distinct (map f_id (funcs f))" "distinct (map f_usr (funcs f))" and
    dv: "distinct (map v_id (vars f))" "distinct (map v_usr (vars f))"
    by (simp_all add: ids_consistent_def)
  show ?thesis
    using assms
    by (simp add: rebuilt_id_cache_def restore_vars_maps [OF dv] restore_funcs_maps [OF df]
        restore_types_maps [OF dt] ids_consistent_def IdCache_ctor_def)
qed
lemma ReflectMemberStart_frame:
  assumes "ReflectMemberStart cur f = Inr f'"
  shows "path f' = path f \<and> diagnostics' f' = diagnostics' f \<and> id_cache f' = id_cache f \<and>
         funcs f' = funcs f \<and> vars f' = vars f \<and>
         map t_id (types f') = map t_id (types f) \<and>
         map t_usr (types f') = map t_usr (types f) \<and>
         map (\<lambda>x. (t_id x, t_usr x)) (types f') = map (\<lambda>x. (t_id x, t_usr x)) (types f) \<and>
         map (\<lambda>x. (t_usr x, t_id x)) (types f') = map (\<lambda>x. (t_usr x, t_id x)) (types f)"
  using assms
  by (auto simp: ReflectMemberStart_def Let_def map_update list_update_same_conv
      split: option.splits if_splits)

lemma ReflectMemberStart_consistent:
  assumes "ReflectMemberStart cur f = Inr f'" and "ids_consistent f"
  shows "ids_consistent f'"
  using ReflectMemberStart_frame [OF assms(1)] assms(2)
  by (simp add: ids_consistent_def)

text \<open>
  Outside the test-output mode, reading what the writer's walk emitted into a fresh file
  gives the file that was written, but for the members that are not serialized.
\<close>

lemma Reflect_Reader_after_Writer:
  assumes "Reflect_Writer_IndexFile cur False f = Inr (m, f')"
  shows "Reflect_Reader_IndexFile False m (IndexFile_ctor p) =
           f'\<lparr>id_cache := IdCache_ctor p, path := p, diagnostics' := []\<rparr> \<and>
         m_version m = Some (version f')"
proof -
  have id: "map (Reflect_Writer_IndexInclude False) xs = xs" for xs
    by (induction xs) (simp_all add: Reflect_Writer_IndexInclude_def)
  from assms have m: "m =
      \<lparr> m_version = Some (version f'), m_last_modification_time = Some (last_modification_time f'),
        m_language = Some (language f'), m_import_file = Some (import_file f'),
        m_args = Some (args f'), m_includes = Some (includes' f'),
        m_dependencies = Some (dependencies f'),
        m_skipped_by_preprocessor = Some (skipped_by_preprocessor f'),
        m_types = Some (types f'), m_funcs = Some (funcs f'), m_vars = Some (vars f') \<rparr>"
    by (auto simp: Reflect_Writer_IndexFile_def id split: sum.splits)
  show ?thesis
    unfolding m
    by (cases f') (simp add: Reflect_Reader_IndexFile_def read_member_def IndexFile_ctor_def)
qed

lemma restore_state_fresh:
  "restore_state p (g\<lparr>id_cache := IdCache_ctor p, path := p, diagnostics' := []\<rparr>) =
     g\<lparr>path := p, diagnostics' := [],
       id_cache := rebuilt_id_cache p (types g) (funcs g) (vars g)\<rparr>"
  by (cases g) (simp add: restore_state_def rebuilt_id_cache_def IdCache_ctor_def)

text \<open>
  C5, as stated, fails: in the test-output mode the payload has no version member, and
  \<^verbatim>\<open>Deserialize\<close> with the current version as the expected one returns null.
\<close>

theorem round_trip_counterexample:
  "round_trip 11 True Json fixture_a_cc = Inr (None, fixture_a_cc\<lparr>version := 11\<rparr>)"
  by (simp add: round_trip_def Serialize_def Deserialize_def Reflect_Writer_IndexFile_def
      ReflectMemberStart_def fixture_a_cc_def IndexFile_ctor_def IdCache_ctor_def)

text \<open>
  C5, amended. With the test-output mode off, for both formats: when \<^verbatim>\<open>Serialize\<close>
  returns, \<^verbatim>\<open>Deserialize\<close> of its payload for a path and the current version returns
  a file. Its serialized members are those of the file as \<^verbatim>\<open>Serialize\<close> left it
  (current version, the fundamental type renamed); its path is the path given; its
  diagnostics (not serialized) are empty; its id cache is the one of the path given,
  rebuilt from the types, funcs and vars. For a file that satisfies the invariant of
  the id cache and has no diagnostics, the round trip through its own path returns the
  file as \<^verbatim>\<open>Serialize\<close> left it.
\<close>

theorem Serialize_Deserialize_round_trip:
  assumes "Serialize kCurrentVersion False format f = Inr (payload, f')"
  shows "Deserialize False format p payload (Some kCurrentVersion) =
           Some (f'\<lparr> path := p, diagnostics' := [],
                    id_cache := rebuilt_id_cache p (types f') (funcs f') (vars f') \<rparr>) \<and>
         (ids_consistent f \<and> diagnostics' f = [] \<longrightarrow>
            round_trip kCurrentVersion False format f = Inr (Some f', f'))"
proof -
  from assms obtain m where
    w: "Reflect_Writer_IndexFile kCurrentVersion False f = Inr (m, f')" and pl: "payload = Parsed m"
    by (auto simp: Serialize_eq split: sum.splits)
  have s: "ReflectMemberStart kCurrentVersion f = Inr f'"
    using w by (rule Reflect_Writer_IndexFile_Inr)
  have v: "version f' = kCurrentVersion"
    using s by (rule ReflectMemberStart_version)
  note r = Reflect_Reader_after_Writer [OF w]
  have d: "Deserialize False format q payload (Some kCurrentVersion) =
           Some (f'\<lparr> path := q, diagnostics' := [],
                    id_cache := rebuilt_id_cache q (types f') (funcs f') (vars f') \<rparr>)" for q
    using r [of q] v
    by (cases format) (simp_all add: Deserialize_def pl restore_state_fresh Let_def)
  have "round_trip kCurrentVersion False format f = Inr (Some f', f')"
    if c: "ids_consistent f" and e: "diagnostics' f = []"
  proof -
    from ReflectMemberStart_frame [OF s] e have e': "diagnostics' f' = []"
      by simp
    from rebuilt_id_cache_consistent [OF ReflectMemberStart_consistent [OF s c]]
    have "f'\<lparr> path := path f', diagnostics' := [],
              id_cache := rebuilt_id_cache (path f') (types f') (funcs f') (vars f') \<rparr> = f'"
      using e' by simp
    with d [of "path f'"] assms show ?thesis
      by (simp add: round_trip_def)
  qed
  with d [of p] show ?thesis by blast
qed
theorem Serialize_Deserialize_round_trip_witness:
  "ids_consistent fixture_symbols \<and> diagnostics' fixture_symbols = [] \<and>
   round_trip 11 False MessagePack fixture_symbols =
     Inr (Some (fixture_symbols
                  \<lparr> version := 11,
                    types := [\<lparr>t_id = 0, t_usr = [], t_short_name = ''<fundamental>'', t_uses = []\<rparr>,
                              \<lparr>t_id = 1, t_usr = ''c:@S@Foo'', t_short_name = ''Foo'',
                                t_uses = [((1, 8), (1, 11))]\<rparr>] \<rparr>),
          fixture_symbols
            \<lparr> version := 11,
              types := [\<lparr>t_id = 0, t_usr = [], t_short_name = ''<fundamental>'', t_uses = []\<rparr>,
                        \<lparr>t_id = 1, t_usr = ''c:@S@Foo'', t_short_name = ''Foo'',
                          t_uses = [((1, 8), (1, 11))]\<rparr>] \<rparr>)"
proof -
  have c: "ids_consistent fixture_symbols"
    by (simp add: ids_consistent_def fixture_symbols_def IndexFile_ctor_def)
  have e: "diagnostics' fixture_symbols = []"
    by (simp add: fixture_symbols_def IndexFile_ctor_def)
  obtain payload where
    s: "Serialize 11 False MessagePack fixture_symbols =
          Inr (payload,
               fixture_symbols
                 \<lparr> version := 11,
                   types := [\<lparr>t_id = 0, t_usr = [], t_short_name = ''<fundamental>'', t_uses = []\<rparr>,
                             \<lparr>t_id = 1, t_usr = ''c:@S@Foo'', t_short_name = ''Foo'',
                               t_uses = [((1, 8), (1, 11))]\<rparr>] \<rparr>)"
    by (simp add: Serialize_def Reflect_Writer_IndexFile_def ReflectMemberStart_def
        fixture_symbols_def IndexFile_ctor_def)
  from Serialize_Deserialize_round_trip [OF s, THEN conjunct2] c e show ?thesis
    by blast
qed

lemma Reflect_Reader_version:
  "version (Reflect_Reader_IndexFile tm m g) =
     (if tm then version g else read_member (m_version m) (version g))"
  by (simp add: Reflect_Reader_IndexFile_def Let_def)

text \<open>
  What both branches of \<^verbatim>\<open>Deserialize\<close> do of the version check: a payload that does
  not parse gives null; for JSON, with an expected version supplied, a payload whose
  version member is missing or differs from it gives null; for the packed format,
  outside the test-output mode, a payload whose version member differs from the
  expected version gives null.
\<close>

lemma Deserialize_rejects:
  "Deserialize tm format p Unparsable expected = None \<and>
   (expected = Some v \<and> m_version m \<noteq> Some v \<longrightarrow>
      Deserialize tm Json p (Parsed m) expected = None) \<and>
   (\<not> tm \<and> expected = Some v \<and> m_version m = Some u \<and> u \<noteq> v \<longrightarrow>
      Deserialize tm MessagePack p (Parsed m) expected = None)"
proof (intro conjI impI)
  show "Deserialize tm format p Unparsable expected = None"
    by (cases format) (simp_all add: Deserialize_def)
next
  assume "expected = Some v \<and> m_version m \<noteq> Some v"
  then show "Deserialize tm Json p (Parsed m) expected = None"
    by (auto simp: Deserialize_def)
next
  assume "\<not> tm \<and> expected = Some v \<and> m_version m = Some u \<and> u \<noteq> v"
  then show "Deserialize tm MessagePack p (Parsed m) expected = None"
    by (simp add: Deserialize_def Let_def Reflect_Reader_version read_member_def)
qed




end
